theory Spec2Isabelle
  imports Complex_Main "HOL-Library.Multiset"
begin

section \<open>Python values used by \<open>process_cass_values.py\<close>\<close>

text \<open>
  The script works on Python \<open>float\<close> values: every field of a sample is the result of
  \<open>float(...)\<close> or \<open>None\<close>.  A float is an IEEE binary64 value.  The finite non-zero
  values and \<open>+0.0\<close> are represented by their exact rational value (\<open>Fin\<close>); negative zero,
  the two infinities and NaN are separate constructors, since \<open>float("-0")\<close>,
  \<open>float("inf")\<close> and \<open>float("nan")\<close> are all accepted by the parser of the script.
  Arithmetic results are rounded to binary64 (round to nearest, ties to even, overflow to
  infinity, gradual underflow).  The theorems below quantify over all values of the type,
  which includes every binary64 value.
\<close>

datatype pyfloat = Fin rat | NegZero | PosInf | NegInf | NaN

datatype pyerror =
    ValueError string
  | KeyError string
  | ZeroDivisionError
  | OSError string

text \<open>Powers with an integer exponent.\<close>

definition pow_int :: "rat \<Rightarrow> int \<Rightarrow> rat" where
  "pow_int b e = (if 0 \<le> e then b ^ nat e else 1 / b ^ nat (- e))"

text \<open>Round to the nearest integer, ties to the even one.\<close>

definition round_half_even :: "rat \<Rightarrow> int" where
  "round_half_even q =
     (let f = \<lfloor>q\<rfloor>; d = q - of_int f
      in if d < 1 / 2 then f
         else if 1 / 2 < d then f + 1
         else if even f then f else f + 1)"

text \<open>Number of digits of a positive integer in base \<open>b\<close> (0 for \<open>n \<le> 0\<close>).\<close>

function digit_count :: "int \<Rightarrow> int \<Rightarrow> int" where
  "digit_count b n = (if n \<le> 0 \<or> b < 2 then 0 else 1 + digit_count b (n div b))"
  by pat_completeness auto
termination
  by (relation "measure (\<lambda>(b, n). nat n)") (auto simp: int_div_less_self)

declare digit_count.simps [simp del]

text \<open>
  \<open>ilog b q\<close> is the integer \<open>e\<close> with \<open>b ^ e \<le> q < b ^ (e + 1)\<close>, for \<open>q > 0\<close>: the
  difference of the digit counts of numerator and denominator is \<open>e\<close> or \<open>e + 1\<close>.
\<close>

definition ilog :: "int \<Rightarrow> rat \<Rightarrow> int" where
  "ilog b q =
     (let (n, d) = quotient_of q;
          e = digit_count b n - digit_count b d
      in if pow_int (of_int b) e \<le> q then e else e - 1)"

definition signed_zero :: "bool \<Rightarrow> pyfloat" where
  "signed_zero neg = (if neg then NegZero else Fin 0)"

definition signed_inf :: "bool \<Rightarrow> pyfloat" where
  "signed_inf neg = (if neg then NegInf else PosInf)"

text \<open>
  Rounding of the exact magnitude \<open>a \<ge> 0\<close> with sign \<open>neg\<close> to binary64: 53 significant
  bits, least exponent \<open>-1022\<close> (below it the spacing stays \<open>2 ^ -1074\<close>).  With
  \<open>e\<close> the binary exponent of \<open>a\<close>, the rounded magnitude is \<open>m * 2 ^ (e - 52)\<close> with
  \<open>m \<le> 2 ^ 53\<close>; it reaches \<open>2 ^ 1024\<close>, and the result is an infinity, exactly when
  \<open>e > 1023\<close>, or \<open>e = 1023\<close> and the significand was rounded up to \<open>2 ^ 53\<close>.
\<close>

definition round_binary64 :: "bool \<Rightarrow> rat \<Rightarrow> pyfloat" where
  "round_binary64 neg a =
     (if a = 0 then signed_zero neg
      else
        let e = max (ilog 2 a) (- 1022);
            u = pow_int 2 (e - 52);
            m = round_half_even (a / u)
        in if 1023 < e \<or> (e = 1023 \<and> 2 ^ 53 \<le> m) then signed_inf neg
           else if m = 0 then signed_zero neg
           else Fin (if neg then - (of_int m * u) else of_int m * u))"

definition is_zero :: "pyfloat \<Rightarrow> bool" where
  "is_zero x = (x = Fin 0 \<or> x = NegZero)"

definition is_inf :: "pyfloat \<Rightarrow> bool" where
  "is_inf x = (x = PosInf \<or> x = NegInf)"

text \<open>The sign bit and the magnitude of a finite value.\<close>

fun sign_bit :: "pyfloat \<Rightarrow> bool" where
  "sign_bit (Fin q) = (q < 0)"
| "sign_bit NegZero = True"
| "sign_bit NegInf = True"
| "sign_bit PosInf = False"
| "sign_bit NaN = False"

fun magnitude :: "pyfloat \<Rightarrow> rat" where
  "magnitude (Fin q) = \<bar>q\<bar>"
| "magnitude _ = 0"

text \<open>\<open>bool(x)\<close> of a float: false exactly for the two zeros.\<close>

definition float_bool :: "pyfloat \<Rightarrow> bool" where
  "float_bool x = (\<not> is_zero x)"

text \<open>
  \<open>a < b\<close> on floats.  Every comparison with NaN is false; the two zeros are equal; the
  other values are ordered as numbers, between the infinities.
\<close>

fun rank :: "pyfloat \<Rightarrow> int" where
  "rank NegInf = - 1"
| "rank PosInf = 1"
| "rank _ = 0"

fun rat_of :: "pyfloat \<Rightarrow> rat" where
  "rat_of (Fin q) = q"
| "rat_of _ = 0"

definition float_lt :: "pyfloat \<Rightarrow> pyfloat \<Rightarrow> bool" where
  "float_lt a b =
     (a \<noteq> NaN \<and> b \<noteq> NaN \<and> (rank a < rank b \<or> (rank a = rank b \<and> rat_of a < rat_of b)))"

definition float_gt :: "pyfloat \<Rightarrow> pyfloat \<Rightarrow> bool" where
  "float_gt a b = float_lt b a"

definition float_le :: "pyfloat \<Rightarrow> pyfloat \<Rightarrow> bool" where
  "float_le a b =
     (a \<noteq> NaN \<and> b \<noteq> NaN \<and> (rank a < rank b \<or> (rank a = rank b \<and> rat_of a \<le> rat_of b)))"

text \<open>\<open>a == b\<close> on floats: NaN equals nothing, \<open>-0.0 == 0.0\<close>.\<close>

definition float_eq :: "pyfloat \<Rightarrow> pyfloat \<Rightarrow> bool" where
  "float_eq a b = (a \<noteq> NaN \<and> b \<noteq> NaN \<and> rank a = rank b \<and> rat_of a = rat_of b)"

text \<open>
  \<open>a / b\<close> on floats.  Python raises \<open>ZeroDivisionError\<close> for a zero divisor, whatever
  the dividend is; otherwise the result is the IEEE quotient.
\<close>

definition float_truediv :: "pyfloat \<Rightarrow> pyfloat \<Rightarrow> pyerror + pyfloat" where
  "float_truediv a b =
     (if is_zero b then Inl ZeroDivisionError
      else Inr
        (if a = NaN \<or> b = NaN then NaN
         else if is_inf a then (if is_inf b then NaN else signed_inf (sign_bit a \<noteq> sign_bit b))
         else if is_inf b then signed_zero (sign_bit a \<noteq> sign_bit b)
         else round_binary64 (sign_bit a \<noteq> sign_bit b) (magnitude a / magnitude b)))"

text \<open>\<open>n - x\<close> for a Python int \<open>n\<close> (converted exactly) and a float \<open>x\<close>.\<close>

definition int_sub_float :: "int \<Rightarrow> pyfloat \<Rightarrow> pyfloat" where
  "int_sub_float n x =
     (case x of
        NaN \<Rightarrow> NaN
      | PosInf \<Rightarrow> NegInf
      | NegInf \<Rightarrow> PosInf
      | NegZero \<Rightarrow> round_binary64 (n < 0) \<bar>of_int n\<bar>
      | Fin q \<Rightarrow> (let d = of_int n - q in round_binary64 (d < 0) \<bar>d\<bar>))"

text \<open>\<open>x * y\<close> on floats.\<close>

definition float_mul :: "pyfloat \<Rightarrow> pyfloat \<Rightarrow> pyfloat" where
  "float_mul a b =
     (if a = NaN \<or> b = NaN then NaN
      else if is_inf a \<or> is_inf b then
        (if is_zero a \<or> is_zero b then NaN else signed_inf (sign_bit a \<noteq> sign_bit b))
      else round_binary64 (sign_bit a \<noteq> sign_bit b) (magnitude a * magnitude b))"

section \<open>Strings\<close>

text \<open>
  Strings are lists of characters, a character being a code point below 256.
  \<open>str.strip()\<close> removes the characters for which \<open>str.isspace()\<close> holds: tab, line feed,
  vertical tab, form feed, carriage return, the four separators \<open>0x1C\<close> to \<open>0x1F\<close>, the
  space, the next-line character \<open>0x85\<close> and the no-break space \<open>0xA0\<close>.
\<close>

definition is_space :: "char \<Rightarrow> bool" where
  "is_space c =
     (c \<in> set [CHR 0x09, CHR 0x0A, CHR 0x0B, CHR 0x0C, CHR 0x0D,
                CHR 0x1C, CHR 0x1D, CHR 0x1E, CHR 0x1F, CHR '' '', CHR 0x85, CHR 0xA0])"

definition strip_chars :: "(char \<Rightarrow> bool) \<Rightarrow> string \<Rightarrow> string" where
  "strip_chars P s = rev (dropWhile P (rev (dropWhile P s)))"

definition strip :: "string \<Rightarrow> string" where
  "strip s = strip_chars is_space s"

text \<open>
  \<open>str.upper()\<close> and the lower-casing of the comparison with \<open>inf\<close> and \<open>nan\<close> are given
  on the ASCII letters.  For a letter outside ASCII \<open>upper()\<close> gives a character outside
  ASCII (or \<open>SS\<close>), here the character itself: in both cases the text differs from
  \<open>N/A\<close>, which is all the script asks of it.
\<close>

definition lower_letters :: string where
  "lower_letters = ''abcdefghijklmnopqrstuvwxyz''"

definition upper_letters :: string where
  "upper_letters = ''ABCDEFGHIJKLMNOPQRSTUVWXYZ''"

definition to_upper :: "char \<Rightarrow> char" where
  "to_upper c = (case map_of (zip lower_letters upper_letters) c of None \<Rightarrow> c | Some u \<Rightarrow> u)"

definition to_lower :: "char \<Rightarrow> char" where
  "to_lower c = (case map_of (zip upper_letters lower_letters) c of None \<Rightarrow> c | Some l \<Rightarrow> l)"

definition upper :: "string \<Rightarrow> string" where
  "upper s = map to_upper s"

definition digit_chars :: "(char \<times> int) list" where
  "digit_chars = zip ''0123456789'' [0, 1, 2, 3, 4, 5, 6, 7, 8, 9]"

definition is_digit :: "char \<Rightarrow> bool" where
  "is_digit c = (map_of digit_chars c \<noteq> None)"

definition digit_val :: "char \<Rightarrow> int" where
  "digit_val c = (case map_of digit_chars c of None \<Rightarrow> 0 | Some d \<Rightarrow> d)"

definition digits_val :: "string \<Rightarrow> int" where
  "digits_val ds = foldl (\<lambda>a c. 10 * a + digit_val c) 0 ds"

text \<open>\<open>text.split(d)\<close> for a one-character separator: one more field than separators.\<close>

fun split_on :: "char \<Rightarrow> string \<Rightarrow> string list" where
  "split_on d [] = [[]]"
| "split_on d (c # cs) =
     (if c = d then [] # split_on d cs
      else (case split_on d cs of w # ws \<Rightarrow> (c # w) # ws | [] \<Rightarrow> [[c]]))"

section \<open>The builtin \<open>float(str)\<close>\<close>

text \<open>
  \<open>float(s)\<close> strips whitespace, accepts single underscores between digits, an optional
  sign, and then either \<open>inf\<close>, \<open>infinity\<close> or \<open>nan\<close> in any letter case or a decimal
  number with an optional exponent; anything else raises \<open>ValueError\<close> (the result
  \<open>None\<close> here).  The decimal value is rounded to binary64.  The whitespace \<open>float\<close>
  strips is that of \<open>str.strip()\<close> without the four separators \<open>0x1C\<close> to \<open>0x1F\<close>.
\<close>

definition is_float_space :: "char \<Rightarrow> bool" where
  "is_float_space c =
     (c \<in> set [CHR 0x09, CHR 0x0A, CHR 0x0B, CHR 0x0C, CHR 0x0D, CHR '' '', CHR 0x85, CHR 0xA0])"

fun drop_underscores :: "char \<Rightarrow> string \<Rightarrow> string option" where
  "drop_underscores prev [] = (if prev = CHR ''_'' then None else Some [])"
| "drop_underscores prev (c # cs) =
     (if c = CHR ''_'' then (if is_digit prev then drop_underscores c cs else None)
      else if prev = CHR ''_'' \<and> \<not> is_digit c then None
      else map_option ((#) c) (drop_underscores c cs))"

definition parse_sign :: "string \<Rightarrow> bool \<times> string" where
  "parse_sign s =
     (case s of
        [] \<Rightarrow> (False, [])
      | c # cs \<Rightarrow> if c = CHR ''-'' then (True, cs) else if c = CHR ''+'' then (False, cs) else (False, s))"

definition take_digits :: "string \<Rightarrow> string \<times> string" where
  "take_digits s = (takeWhile is_digit s, dropWhile is_digit s)"

definition parse_exponent :: "string \<Rightarrow> int option" where
  "parse_exponent s =
     (case s of
        [] \<Rightarrow> Some 0
      | c # cs \<Rightarrow>
          if c = CHR ''e'' \<or> c = CHR ''E'' then
            (let (neg, ds) = parse_sign cs
             in if ds \<noteq> [] \<and> list_all is_digit ds
                then Some (if neg then - digits_val ds else digits_val ds)
                else None)
          else None)"

definition parse_decimal :: "string \<Rightarrow> rat option" where
  "parse_decimal s =
     (let (ip, r1) = take_digits s;
          (fp, r2) = (case r1 of
                        [] \<Rightarrow> ([], [])
                      | c # cs \<Rightarrow> if c = CHR ''.'' then take_digits cs else ([], r1))
      in if ip = [] \<and> fp = [] then None
         else (case parse_exponent r2 of
                 None \<Rightarrow> None
               | Some x \<Rightarrow> Some (of_int (digits_val (ip @ fp)) * pow_int 10 (x - int (length fp)))))"

definition float_of_string :: "string \<Rightarrow> pyfloat option" where
  "float_of_string s0 =
     (case drop_underscores (CHR 0x00) (strip_chars is_float_space s0) of
        None \<Rightarrow> None
      | Some s \<Rightarrow>
          (let (neg, body) = parse_sign s; low = map to_lower body
           in if low = ''inf'' \<or> low = ''infinity'' then Some (signed_inf neg)
              else if low = ''nan'' then Some NaN
              else map_option (round_binary64 neg) (parse_decimal body)))"

section \<open>Samples\<close>

text \<open>
  A sample is a Python \<open>dict\<close> from field names to \<open>Optional[float]\<close>, kept as an
  association list in insertion order.  \<open>pt.get(k)\<close> is \<open>None\<close> for a missing key and for a
  key bound to \<open>None\<close>; \<open>pt[k]\<close> raises \<open>KeyError\<close> for a missing key; \<open>pt[k] = v\<close>
  rebinds an existing key in place and appends a new one.
\<close>

type_synonym sample = "(string \<times> pyfloat option) list"

definition dict_get :: "sample \<Rightarrow> string \<Rightarrow> pyfloat option" where
  "dict_get pt k = (case map_of pt k of None \<Rightarrow> None | Some v \<Rightarrow> v)"

definition dict_item :: "sample \<Rightarrow> string \<Rightarrow> pyerror + pyfloat option" where
  "dict_item pt k = (case map_of pt k of None \<Rightarrow> Inl (KeyError k) | Some v \<Rightarrow> Inr v)"

fun dict_set :: "sample \<Rightarrow> string \<Rightarrow> pyfloat option \<Rightarrow> sample" where
  "dict_set [] k v = [(k, v)]"
| "dict_set ((k', v') # kvs) k v =
     (if k' = k then (k, v) # kvs else (k', v') # dict_set kvs k v)"

section \<open>\<open>parse_point\<close>\<close>

definition parse_num :: "string \<Rightarrow> pyfloat option" where
  "parse_num val0 =
     (let val = strip val0
      in if val = [] \<or> upper val = ''N/A'' then None else float_of_string val)"

definition bad_point_message :: "string \<Rightarrow> string" where
  "bad_point_message text =
     ''Bad point '' @ [CHR 0x27] @ text @ [CHR 0x27] @ '': expected cpu,throughput,latency''"

definition parse_point :: "string \<Rightarrow> pyerror + sample" where
  "parse_point text =
     (let parts = split_on (CHR '','') text
      in if length parts \<noteq> 3 then Inl (ValueError (bad_point_message text))
         else
           (let cpu = parse_num (parts ! 0);
                thr = parse_num (parts ! 1);
                lat = parse_num (parts ! 2)
            in Inr [(''cpu_pct'', cpu), (''throughput'', thr), (''latency'', lat)]))"

section \<open>\<open>add_normalized\<close>\<close>

text \<open>The first loop: \<open>max_thr\<close> starts as \<open>None\<close> and is replaced by a greater throughput.\<close>

fun max_throughput :: "pyfloat option \<Rightarrow> sample list \<Rightarrow> pyfloat option" where
  "max_throughput max_thr [] = max_thr"
| "max_throughput max_thr (pt # pts) =
     (case dict_get pt ''throughput'' of
        None \<Rightarrow> max_throughput max_thr pts
      | Some thr \<Rightarrow>
          (case max_thr of
             None \<Rightarrow> max_throughput (Some thr) pts
           | Some m \<Rightarrow>
               if float_gt thr m then max_throughput (Some thr) pts
               else max_throughput max_thr pts))"

text \<open>
  The value stored by the second loop: \<open>thr / max_thr\<close> when \<open>max_thr\<close> is truthy (not
  \<open>None\<close>, not zero) and \<open>thr\<close> is not \<open>None\<close>, else \<open>None\<close>.
\<close>

definition normalized_value :: "pyfloat option \<Rightarrow> pyfloat option \<Rightarrow> pyerror + pyfloat option" where
  "normalized_value max_thr thr =
     (case max_thr of
        None \<Rightarrow> Inr None
      | Some m \<Rightarrow>
          if float_bool m then
            (case thr of
               None \<Rightarrow> Inr None
             | Some t \<Rightarrow> (case float_truediv t m of Inl e \<Rightarrow> Inl e | Inr q \<Rightarrow> Inr (Some q)))
          else Inr None)"

fun set_normalized :: "pyfloat option \<Rightarrow> sample list \<Rightarrow> pyerror + sample list" where
  "set_normalized max_thr [] = Inr []"
| "set_normalized max_thr (pt # pts) =
     (case normalized_value max_thr (dict_get pt ''throughput'') of
        Inl e \<Rightarrow> Inl e
      | Inr v \<Rightarrow>
          (case set_normalized max_thr pts of
             Inl e \<Rightarrow> Inl e
           | Inr pts' \<Rightarrow> Inr (dict_set pt ''normalized_throughput'' v # pts')))"

definition add_normalized :: "sample list \<Rightarrow> pyerror + sample list" where
  "add_normalized points = set_normalized (max_throughput None points) points"

text \<open>
  Two auxiliary notions for stating properties: the value the second loop stores, as a
  total function, and the list of the throughputs that are not \<open>None\<close>.
\<close>

definition norm_of :: "pyfloat option \<Rightarrow> pyfloat option \<Rightarrow> pyfloat option" where
  "norm_of max_thr thr = (case normalized_value max_thr thr of Inl e \<Rightarrow> None | Inr v \<Rightarrow> v)"

definition throughputs :: "sample list \<Rightarrow> pyfloat list" where
  "throughputs points = List.map_filter (\<lambda>pt. dict_get pt ''throughput'') points"

section \<open>Formatting floats\<close>

text \<open>
  The decimal digits of an integer \<open>n \<ge> 0\<close>; \<open>digit_char\<close> is applied to \<open>0, ..., 9\<close>
  only.
\<close>

definition digit_char :: "int \<Rightarrow> char" where
  "digit_char d = ''0123456789'' ! nat d"

function digits_of :: "int \<Rightarrow> string" where
  "digits_of n = (if n < 10 then [digit_char n] else digits_of (n div 10) @ [digit_char (n mod 10)])"
  by pat_completeness auto
termination
  by (relation "measure nat") (auto simp: int_div_less_self)

declare digits_of.simps [simp del]

text \<open>
  \<open>format(x, '.pf')\<close>: the exact value rounded to \<open>p\<close> decimals (ties to even), at least
  one digit before the point, \<open>-\<close> for a set sign bit; \<open>nan\<close>, \<open>inf\<close> and \<open>-inf\<close> for the
  special values.
\<close>

definition fixed_digits :: "nat \<Rightarrow> rat \<Rightarrow> string" where
  "fixed_digits p a =
     (let ds = digits_of (round_half_even (a * 10 ^ p));
          ds' = replicate (Suc p - length ds) (CHR ''0'') @ ds
      in if p = 0 then ds'
         else take (length ds' - p) ds' @ ''.'' @ drop (length ds' - p) ds')"

definition format_fixed :: "nat \<Rightarrow> pyfloat \<Rightarrow> string" where
  "format_fixed p x =
     (case x of
        NaN \<Rightarrow> ''nan''
      | PosInf \<Rightarrow> ''inf''
      | NegInf \<Rightarrow> ''-inf''
      | NegZero \<Rightarrow> ''-'' @ fixed_digits p 0
      | Fin q \<Rightarrow> (if q < 0 then ''-'' else []) @ fixed_digits p \<bar>q\<bar>)"

text \<open>
  \<open>repr(x)\<close>: the shortest decimal digit string that rounds back to \<open>x\<close>, and among those
  of that length the one nearest to \<open>x\<close> (of two equally near ones the even one).  With \<open>n\<close> significant digits only the two
  \<open>n\<close>-digit decimals around \<open>a\<close> can qualify.  The search tries \<open>n = 1, ..., 17\<close>; 17
  digits identify every binary64 value, and for a rational that is no binary64 value the
  17-digit rounding is returned.  The result is the integer \<open>m\<close> and the exponent \<open>e\<close> with
  decimal value \<open>m * 10 ^ e\<close>.
\<close>

fun repr_search :: "rat \<Rightarrow> int \<Rightarrow> int list \<Rightarrow> int \<times> int" where
  "repr_search a k [] = (round_half_even (a / pow_int 10 (k - 16)), k - 16)"
| "repr_search a k (n # ns) =
     (let s = pow_int 10 (k - n + 1);
          lo = \<lfloor>a / s\<rfloor>;
          hi = lo + 1;
          ok_lo = (round_binary64 False (of_int lo * s) = Fin a);
          ok_hi = (round_binary64 False (of_int hi * s) = Fin a)
      in if ok_lo \<and> (\<not> ok_hi \<or> a - of_int lo * s < of_int hi * s - a
                    \<or> (a - of_int lo * s = of_int hi * s - a \<and> even lo))
         then (lo, k - n + 1)
         else if ok_hi then (hi, k - n + 1)
         else repr_search a k ns)"

definition strip_zeros :: "string \<Rightarrow> string" where
  "strip_zeros ds = rev (dropWhile (\<lambda>c. c = CHR ''0'') (rev ds))"

text \<open>
  The digits \<open>d1 d2 ... dn\<close> and the position \<open>decpt\<close> of the decimal point: the value is
  \<open>0.d1d2...dn * 10 ^ decpt\<close>.
\<close>

definition repr_digits :: "rat \<Rightarrow> string \<times> int" where
  "repr_digits a =
     (let (m, e) = repr_search a (ilog 10 a) [1, 2, 3, 4, 5, 6, 7, 8, 9, 10, 11, 12, 13, 14, 15, 16, 17];
          ds = digits_of m
      in (strip_zeros ds, int (length ds) + e))"

text \<open>
  \<open>repr\<close> uses the exponent form when \<open>decpt \<le> -4\<close> or \<open>decpt > 16\<close>, with at least two
  exponent digits, and otherwise the positional form, with \<open>.0\<close> added to an integer.
\<close>

definition repr_layout :: "string \<Rightarrow> int \<Rightarrow> string" where
  "repr_layout ds decpt =
     (if decpt \<le> - 4 \<or> 16 < decpt then
        (let x = decpt - 1;
             xs = digits_of \<bar>x\<bar>
         in take 1 ds @ (if 1 < length ds then ''.'' @ drop 1 ds else [])
            @ ''e'' @ (if x < 0 then ''-'' else ''+'')
            @ (if length xs < 2 then ''0'' @ xs else xs))
      else if decpt \<le> 0 then ''0.'' @ replicate (nat (- decpt)) (CHR ''0'') @ ds
      else if int (length ds) \<le> decpt then
        ds @ replicate (nat decpt - length ds) (CHR ''0'') @ ''.0''
      else take (nat decpt) ds @ ''.'' @ drop (nat decpt) ds)"

definition float_repr :: "pyfloat \<Rightarrow> string" where
  "float_repr x =
     (case x of
        NaN \<Rightarrow> ''nan''
      | PosInf \<Rightarrow> ''inf''
      | NegInf \<Rightarrow> ''-inf''
      | NegZero \<Rightarrow> ''-0.0''
      | Fin q \<Rightarrow>
          if q = 0 then ''0.0''
          else (let (ds, decpt) = repr_digits \<bar>q\<bar>
                in (if q < 0 then ''-'' else []) @ repr_layout ds decpt))"

text \<open>\<open>s.ljust(w)\<close>, which the format specification \<open>{:ws}\<close> applies to a string.\<close>

definition ljust :: "nat \<Rightarrow> string \<Rightarrow> string" where
  "ljust w s = s @ replicate (w - length s) (CHR '' '')"

section \<open>\<open>write_csv\<close>\<close>

text \<open>
  \<open>csv.writer(fh).writerow(fields)\<close> with the default dialect joins the fields with commas
  and ends the row with \<open>\r\n\<close>; a float is written as its \<open>repr\<close>.  No field of this
  script contains a comma, a quote or a line break, so none is quoted.
\<close>

datatype csv_field = CsvText string | CsvFloat pyfloat

definition csv_field_text :: "csv_field \<Rightarrow> string" where
  "csv_field_text f = (case f of CsvText s \<Rightarrow> s | CsvFloat x \<Rightarrow> float_repr x)"

fun join :: "string \<Rightarrow> string list \<Rightarrow> string" where
  "join sep [] = []"
| "join sep [s] = s"
| "join sep (s # t # ss) = s @ sep @ join sep (t # ss)"

definition writerow :: "csv_field list \<Rightarrow> string" where
  "writerow fields = join '','' (map csv_field_text fields) @ [CHR 0x0D, CHR 0x0A]"

definition csv_header :: string where
  "csv_header =
     writerow [CsvText ''cpu_pct'', CsvText ''cpu_availability_pct'', CsvText ''throughput'',
               CsvText ''latency'', CsvText ''normalized_throughput'']"

text \<open>One row of the table; \<open>pt[...]\<close> raises \<open>KeyError\<close> for a missing key.\<close>

definition csv_row :: "sample \<Rightarrow> pyerror + string" where
  "csv_row pt =
     (case dict_item pt ''cpu_pct'' of
        Inl e \<Rightarrow> Inl e
      | Inr cpu \<Rightarrow>
          (let avail = (case cpu of None \<Rightarrow> None | Some c \<Rightarrow> Some (int_sub_float 100 c))
           in case dict_item pt ''throughput'' of
                Inl e \<Rightarrow> Inl e
              | Inr thr \<Rightarrow>
                  (case dict_item pt ''latency'' of
                     Inl e \<Rightarrow> Inl e
                   | Inr lat \<Rightarrow>
                       Inr (writerow
                         [case cpu of None \<Rightarrow> CsvText [] | Some c \<Rightarrow> CsvFloat c,
                          case avail of None \<Rightarrow> CsvText [] | Some a \<Rightarrow> CsvFloat a,
                          case thr of None \<Rightarrow> CsvText [] | Some t \<Rightarrow> CsvText (format_fixed 2 t),
                          case lat of None \<Rightarrow> CsvText [] | Some l \<Rightarrow> CsvText (format_fixed 2 l),
                          case dict_get pt ''normalized_throughput'' of
                            None \<Rightarrow> CsvText []
                          | Some n \<Rightarrow> CsvText (format_fixed 4 n)]))))"

text \<open>
  The loop \<open>for pt in points\<close> visits the list by index.  The list with its dicts is the
  state the renderer works on: the loop takes it and hands it on, \<open>n\<close> being the number of
  elements still to visit and \<open>i\<close> the index of the next one.  The result is the text
  written, the exception that ended the loop, if one did, and the list as the loop leaves
  it.
\<close>

fun write_rows ::
  "(sample \<Rightarrow> pyerror + string) \<Rightarrow> nat \<Rightarrow> nat \<Rightarrow> sample list
     \<Rightarrow> (string \<times> pyerror option) \<times> sample list" where
  "write_rows row 0 i points = (([], None), points)"
| "write_rows row (Suc n) i points =
     (case row (points ! i) of
        Inl e \<Rightarrow> (([], Some e), points)
      | Inr r \<Rightarrow>
          (let ((out, err), points') = write_rows row n (Suc i) points
           in ((r @ out, err), points')))"

definition write_csv :: "sample list \<Rightarrow> (string \<times> pyerror option) \<times> sample list" where
  "write_csv points =
     (let ((out, err), points') = write_rows csv_row (length points) 0 points
      in ((csv_header @ out, err), points'))"

section \<open>\<open>print_table\<close>\<close>

definition table_line :: "string \<Rightarrow> string \<Rightarrow> string \<Rightarrow> string \<Rightarrow> string" where
  "table_line a b c d =
     ljust 12 a @ '' '' @ ljust 14 b @ '' '' @ ljust 12 c @ '' '' @ ljust 10 d @ [CHR 0x0A]"

definition table_header :: string where
  "table_header =
     table_line ''CPU avail'' ''Throughput'' ''Latency'' ''NormThr''
     @ replicate (12 + 14 + 12 + 10) (CHR ''-'') @ [CHR 0x0A]"

definition table_row :: "sample \<Rightarrow> pyerror + string" where
  "table_row pt =
     (case dict_item pt ''cpu_pct'' of
        Inl e \<Rightarrow> Inl e
      | Inr cpu \<Rightarrow>
          (let cpu_avail = (case cpu of
                              None \<Rightarrow> []
                            | Some c \<Rightarrow> format_fixed 0 (int_sub_float 100 c) @ ''%'')
           in case dict_item pt ''throughput'' of
                Inl e \<Rightarrow> Inl e
              | Inr t \<Rightarrow>
                  (let thr = (case t of None \<Rightarrow> [] | Some v \<Rightarrow> format_fixed 2 v)
                   in case dict_item pt ''latency'' of
                        Inl e \<Rightarrow> Inl e
                      | Inr l \<Rightarrow>
                          (let lat = (case l of None \<Rightarrow> [] | Some v \<Rightarrow> format_fixed 2 v);
                               nthr = (case dict_get pt ''normalized_throughput'' of
                                         None \<Rightarrow> []
                                       | Some v \<Rightarrow> format_fixed 4 v)
                           in Inr (table_line cpu_avail thr lat nthr)))))"

definition print_table :: "sample list \<Rightarrow> (string \<times> pyerror option) \<times> sample list" where
  "print_table points =
     (let ((out, err), points') = write_rows table_row (length points) 0 points
      in ((table_header @ out, err), points'))"

section \<open>\<open>json.dumps(points, indent=2)\<close>\<close>

text \<open>
  A float is written as its \<open>repr\<close>, with \<open>NaN\<close>, \<open>Infinity\<close> and \<open>-Infinity\<close> for the
  special values, and \<open>None\<close> as \<open>null\<close>.  In a key, the quote and the backslash are
  escaped, and so is every character outside the printable ASCII range.
\<close>

definition hex_char :: "int \<Rightarrow> char" where
  "hex_char d = ''0123456789abcdef'' ! nat d"

definition json_escape_char :: "char \<Rightarrow> string" where
  "json_escape_char c =
     (if c = CHR 0x22 then [CHR 0x5C, CHR 0x22]
      else if c = CHR 0x5C then [CHR 0x5C, CHR 0x5C]
      else if c = CHR 0x0A then [CHR 0x5C, CHR ''n'']
      else if c = CHR 0x0D then [CHR 0x5C, CHR ''r'']
      else if c = CHR 0x09 then [CHR 0x5C, CHR ''t'']
      else if c = CHR 0x0C then [CHR 0x5C, CHR ''f'']
      else if c = CHR 0x08 then [CHR 0x5C, CHR ''b'']
      else (let n = (of_char c :: int)
            in if 32 \<le> n \<and> n \<le> 126 then [c]
               else [CHR 0x5C, CHR ''u'', CHR ''0'', CHR ''0'', hex_char (n div 16), hex_char (n mod 16)]))"

definition json_string :: "string \<Rightarrow> string" where
  "json_string s = [CHR 0x22] @ concat (map json_escape_char s) @ [CHR 0x22]"

definition json_value :: "pyfloat option \<Rightarrow> string" where
  "json_value v =
     (case v of
        None \<Rightarrow> ''null''
      | Some NaN \<Rightarrow> ''NaN''
      | Some PosInf \<Rightarrow> ''Infinity''
      | Some NegInf \<Rightarrow> ''-Infinity''
      | Some x \<Rightarrow> float_repr x)"

definition json_dict :: "sample \<Rightarrow> string" where
  "json_dict pt =
     (if pt = [] then ''{}''
      else ''{'' @ [CHR 0x0A]
           @ join ('','' @ [CHR 0x0A])
               (map (\<lambda>(k, v). ''    '' @ json_string k @ '': '' @ json_value v) pt)
           @ [CHR 0x0A] @ ''  }'')"

definition json_dumps :: "sample list \<Rightarrow> string" where
  "json_dumps points =
     (if points = [] then ''[]''
      else ''['' @ [CHR 0x0A]
           @ join ('','' @ [CHR 0x0A]) (map (\<lambda>pt. ''  '' @ json_dict pt) points)
           @ [CHR 0x0A] @ '']'')"

section \<open>\<open>plot\<close>\<close>

text \<open>
  The key of the sort: \<open>cpu_pct\<close>, or the integer \<open>999\<close> when it is \<open>None\<close>.
\<close>

definition sort_key :: "sample \<Rightarrow> pyerror + pyfloat" where
  "sort_key pt =
     (case dict_item pt ''cpu_pct'' of
        Inl e \<Rightarrow> Inl e
      | Inr None \<Rightarrow> Inr (Fin 999)
      | Inr (Some c) \<Rightarrow> Inr c)"

text \<open>
  \<open>sorted(points, key=sort_key)\<close> computes the key of every element first and then sorts
  stably, comparing keys with \<open><\<close> only.  The sort is given as an insertion sort: an
  element passes the elements with a smaller key and stops before the first other one, so
  that elements with equal keys keep their input order.  For keys without NaN every
  stable sort yields the same list.  (With a NaN among the keys \<open><\<close> is no ordering and
  the list Python returns depends on its merge strategy.)
\<close>

fun insert_keyed :: "pyfloat \<times> 'a \<Rightarrow> (pyfloat \<times> 'a) list \<Rightarrow> (pyfloat \<times> 'a) list" where
  "insert_keyed x [] = [x]"
| "insert_keyed x (y # ys) =
     (if float_lt (fst y) (fst x) then y # insert_keyed x ys else x # y # ys)"

definition sort_keyed :: "(pyfloat \<times> 'a) list \<Rightarrow> (pyfloat \<times> 'a) list" where
  "sort_keyed xs = foldr insert_keyed xs []"

fun keyed :: "sample list \<Rightarrow> pyerror + (pyfloat \<times> sample) list" where
  "keyed [] = Inr []"
| "keyed (pt # pts) =
     (case sort_key pt of
        Inl e \<Rightarrow> Inl e
      | Inr k \<Rightarrow> (case keyed pts of Inl e \<Rightarrow> Inl e | Inr kps \<Rightarrow> Inr ((k, pt) # kps)))"

definition sorted_points :: "sample list \<Rightarrow> pyerror + sample list" where
  "sorted_points points =
     (case keyed points of Inl e \<Rightarrow> Inl e | Inr kps \<Rightarrow> Inr (map snd (sort_keyed kps)))"

text \<open>The label and the height of the bar of one sample, and the text drawn above it.\<close>

definition bar_label :: "sample \<Rightarrow> pyerror + string" where
  "bar_label pt =
     (case dict_item pt ''cpu_pct'' of
        Inl e \<Rightarrow> Inl e
      | Inr None \<Rightarrow> Inr ''?''
      | Inr (Some c) \<Rightarrow> Inr (format_fixed 0 (int_sub_float 100 c) @ ''%''))"

definition bar_height :: "sample \<Rightarrow> pyfloat" where
  "bar_height pt =
     (case dict_get pt ''normalized_throughput'' of
        None \<Rightarrow> Fin 0
      | Some nt \<Rightarrow> float_mul nt (Fin 100))"

definition bar_text :: "pyfloat \<Rightarrow> string" where
  "bar_text height = (if float_le height (Fin 0) then ''n/a'' else format_fixed 1 height @ ''%'')"

fun bar_labels :: "sample list \<Rightarrow> pyerror + string list" where
  "bar_labels [] = Inr []"
| "bar_labels (pt # pts) =
     (case bar_label pt of
        Inl e \<Rightarrow> Inl e
      | Inr l \<Rightarrow> (case bar_labels pts of Inl e \<Rightarrow> Inl e | Inr ls \<Rightarrow> Inr (l # ls)))"

record figure =
  fig_labels :: "string list"
  fig_heights :: "pyfloat list"
  fig_texts :: "string list"

text \<open>
  What the surroundings decide for \<open>plot\<close>: the import of matplotlib raises (with the
  given message), or drawing and saving the figure raises the given exception, or the
  figure is saved.
\<close>

datatype mpl_status = ImportFails string | SaveFails pyerror | SaveOk

text \<open>
  The result of \<open>plot\<close>: the value returned or the exception raised, the text written to
  the standard output and to the standard error, and the figure written to \<open>out_path\<close>.
  The \<open>try ... finally\<close> around \<open>savefig\<close> has no \<open>except\<close> clause: it closes the figures
  and lets the exception pass.
\<close>

record plot_result =
  plot_value :: "pyerror + bool"
  plot_stdout :: string
  plot_stderr :: string
  plot_file :: "figure option"

definition plot :: "mpl_status \<Rightarrow> sample list \<Rightarrow> string \<Rightarrow> plot_result" where
  "plot mpl points out_path =
     (case mpl of
        ImportFails msg \<Rightarrow>
          \<lparr>plot_value = Inr False, plot_stdout = [],
           plot_stderr = ''Plotting skipped (matplotlib unavailable): '' @ msg @ [CHR 0x0A],
           plot_file = None\<rparr>
      | _ \<Rightarrow>
          (case sorted_points points of
             Inl e \<Rightarrow> \<lparr>plot_value = Inl e, plot_stdout = [], plot_stderr = [], plot_file = None\<rparr>
           | Inr pts_sorted \<Rightarrow>
               (case bar_labels pts_sorted of
                  Inl e \<Rightarrow> \<lparr>plot_value = Inl e, plot_stdout = [], plot_stderr = [], plot_file = None\<rparr>
                | Inr labels \<Rightarrow>
                    if labels = [] then
                      \<lparr>plot_value = Inr False, plot_stdout = [], plot_stderr = [], plot_file = None\<rparr>
                    else
                      (let heights = map bar_height pts_sorted;
                           fig = \<lparr>fig_labels = labels, fig_heights = heights,
                                  fig_texts = map bar_text heights\<rparr>
                       in case mpl of
                            SaveFails e \<Rightarrow>
                              \<lparr>plot_value = Inl e, plot_stdout = [], plot_stderr = [],
                               plot_file = None\<rparr>
                          | _ \<Rightarrow>
                              \<lparr>plot_value = Inr True,
                               plot_stdout = ''Wrote plot to '' @ out_path @ [CHR 0x0A],
                               plot_stderr = [], plot_file = Some fig\<rparr>))))"

section \<open>\<open>main\<close>\<close>

text \<open>
  The arguments as \<open>argparse\<close> delivers them (it leaves \<open>main\<close> itself with exit status 2
  when no point is given or the format is not one of the three), and the surroundings:
  whether opening or writing the \<open>--output-csv\<close> file raises \<open>OSError\<close> (with which
  message), whether the standard output is a terminal, and the state of matplotlib.
\<close>

datatype output_format = FormatCsv | FormatJson | FormatTable

record args =
  arg_points :: "string list"
  arg_format :: output_format
  arg_output_csv :: "string option"
  arg_plot_out :: string
  arg_no_plot :: bool

record env =
  env_csv_oserror :: "string option"
  env_isatty :: bool
  env_matplotlib :: mpl_status

text \<open>What a run leaves behind, and how it ends.\<close>

record world =
  stdout :: string
  stderr :: string
  csv_file :: "(string \<times> string) option"
  plot_written :: "(string \<times> figure) option"

datatype outcome = Returned int | Raised pyerror

definition world0 :: world where
  "world0 = \<lparr>stdout = [], stderr = [], csv_file = None, plot_written = None\<rparr>"

text \<open>\<open>[parse_point(p) for p in args.points]\<close>: the first exception ends the comprehension.\<close>

fun parse_points :: "string list \<Rightarrow> pyerror + sample list" where
  "parse_points [] = Inr []"
| "parse_points (p # ps) =
     (case parse_point p of
        Inl e \<Rightarrow> Inl e
      | Inr pt \<Rightarrow> (case parse_points ps of Inl e \<Rightarrow> Inl e | Inr pts \<Rightarrow> Inr (pt # pts)))"

text \<open>The last step: the plot, unless disabled or without a path; then \<open>return 0\<close>.\<close>

definition main_plot :: "env \<Rightarrow> args \<Rightarrow> sample list \<Rightarrow> world \<Rightarrow> outcome \<times> world" where
  "main_plot ev a points w =
     (if \<not> arg_no_plot a \<and> arg_plot_out a \<noteq> [] then
        (let r = plot (env_matplotlib ev) points (arg_plot_out a);
             w' = w\<lparr>stdout := stdout w @ plot_stdout r,
                    stderr := stderr w @ plot_stderr r,
                    plot_written := (case plot_file r of
                                       None \<Rightarrow> None
                                     | Some fig \<Rightarrow> Some (arg_plot_out a, fig))\<rparr>
         in case plot_value r of Inl e \<Rightarrow> (Raised e, w') | Inr b \<Rightarrow> (Returned 0, w'))
      else (Returned 0, w))"

text \<open>
  The table on the standard output, in the selected format.  The run goes on with the list
  as the renderer leaves it.
\<close>

definition main_stdout :: "env \<Rightarrow> args \<Rightarrow> sample list \<Rightarrow> world \<Rightarrow> outcome \<times> world" where
  "main_stdout ev a points w =
     (case arg_format a of
        FormatCsv \<Rightarrow>
          (let ((out, err), points') = write_csv points; w' = w\<lparr>stdout := stdout w @ out\<rparr>
           in case err of Some e \<Rightarrow> (Raised e, w') | None \<Rightarrow> main_plot ev a points' w')
      | FormatJson \<Rightarrow>
          main_plot ev a points
            (w\<lparr>stdout := stdout w @ json_dumps points
                  @ (if \<not> env_isatty ev then [CHR 0x0A] else [])\<rparr>)
      | FormatTable \<Rightarrow>
          (let ((out, err), points') = print_table points; w' = w\<lparr>stdout := stdout w @ out\<rparr>
           in case err of Some e \<Rightarrow> (Raised e, w') | None \<Rightarrow> main_plot ev a points' w'))"

text \<open>
  The optional CSV file: \<open>OSError\<close> from opening or writing it is reported and ends the
  run with 1; any other exception of \<open>write_csv\<close> is not caught.
\<close>

definition main_csv_file :: "env \<Rightarrow> args \<Rightarrow> sample list \<Rightarrow> world \<Rightarrow> outcome \<times> world" where
  "main_csv_file ev a points w =
     (case arg_output_csv a of
        None \<Rightarrow> main_stdout ev a points w
      | Some path \<Rightarrow>
          if path = [] then main_stdout ev a points w
          else
            (case env_csv_oserror ev of
               Some msg \<Rightarrow>
                 (Returned 1,
                  w\<lparr>stderr := stderr w @ ''Failed to write CSV to '' @ path @ '': '' @ msg
                       @ [CHR 0x0A]\<rparr>)
             | None \<Rightarrow>
                 (let ((out, err), points') = write_csv points;
                      w' = w\<lparr>csv_file := Some (path, out)\<rparr>
                  in case err of
                       Some e \<Rightarrow> (Raised e, w')
                     | None \<Rightarrow> main_stdout ev a points' w')))"

definition main :: "env \<Rightarrow> args \<Rightarrow> outcome \<times> world" where
  "main ev a =
     (case parse_points (arg_points a) of
        Inl (ValueError msg) \<Rightarrow> (Returned 1, world0\<lparr>stderr := msg @ [CHR 0x0A]\<rparr>)
      | Inl e \<Rightarrow> (Raised e, world0)
      | Inr points0 \<Rightarrow>
          (case add_normalized points0 of
             Inl e \<Rightarrow> (Raised e, world0)
           | Inr points \<Rightarrow> main_csv_file ev a points world0))"

section \<open>Notions for the statements about \<open>main\<close>\<close>

text \<open>
  An argument is malformed when \<open>split(",")\<close> does not give three fields.  A sample has
  its raw fields when the three keys set by \<open>parse_point\<close> are present.  The CSV file is
  requested by a non-empty \<open>--output-csv\<close> path, the plot unless \<open>--no-plot\<close> is given or
  the \<open>--plot-out\<close> path is empty.
\<close>

definition malformed :: "string \<Rightarrow> bool" where
  "malformed p = (length (split_on (CHR '','') p) \<noteq> 3)"

definition has_fields :: "sample \<Rightarrow> bool" where
  "has_fields pt =
     (map_of pt ''cpu_pct'' \<noteq> None \<and> map_of pt ''throughput'' \<noteq> None \<and>
      map_of pt ''latency'' \<noteq> None)"

definition csv_requested :: "args \<Rightarrow> bool" where
  "csv_requested a = (case arg_output_csv a of None \<Rightarrow> False | Some path \<Rightarrow> path \<noteq> [])"

definition plot_requested :: "args \<Rightarrow> bool" where
  "plot_requested a = (\<not> arg_no_plot a \<and> arg_plot_out a \<noteq> [])"

section \<open>Numeric text\<close>

text \<open>
  What counts as numeric text, stated apart from the parser: every underscore stands
  between two digits, and without its underscores the text is an optional sign followed by
  \<open>inf\<close>, \<open>infinity\<close> or \<open>nan\<close> in any letter case, or by a decimal number: digits with
  an optional point, at least one digit before or after it, and an optional exponent
  \<open>e\<close> or \<open>E\<close> with an optional sign and at least one digit.  Its value is the binary64
  value nearest to the decimal number.
\<close>

fun underscores_between_digits :: "char option \<Rightarrow> string \<Rightarrow> bool" where
  "underscores_between_digits before [] = True"
| "underscores_between_digits before (c # cs) =
     ((c = CHR ''_'' \<longrightarrow>
         (\<exists>d. before = Some d \<and> is_digit d) \<and> (\<exists>d ds. cs = d # ds \<and> is_digit d)) \<and>
      underscores_between_digits (Some c) cs)"

definition sign_text :: "string \<Rightarrow> bool \<Rightarrow> bool" where
  "sign_text sg neg = ((sg = [] \<and> \<not> neg) \<or> (sg = ''+'' \<and> \<not> neg) \<or> (sg = ''-'' \<and> neg))"

definition exponent_text :: "string \<Rightarrow> int \<Rightarrow> bool" where
  "exponent_text t e =
     ((t = [] \<and> e = 0) \<or>
      (\<exists>c sg neg ds.
          t = c # sg @ ds \<and> (c = CHR ''e'' \<or> c = CHR ''E'') \<and> sign_text sg neg \<and>
          ds \<noteq> [] \<and> list_all is_digit ds \<and>
          e = (if neg then - digits_val ds else digits_val ds)))"

definition decimal_text :: "string \<Rightarrow> rat \<Rightarrow> bool" where
  "decimal_text t q =
     (\<exists>ip dot fp ex e.
         t = ip @ dot @ fp @ ex \<and> list_all is_digit ip \<and> list_all is_digit fp \<and>
         (ip \<noteq> [] \<or> fp \<noteq> []) \<and> (dot = ''.'' \<or> (dot = [] \<and> fp = [])) \<and>
         exponent_text ex e \<and>
         q = of_int (digits_val (ip @ fp)) * pow_int 10 (e - int (length fp)))"

definition plain_float_text :: "string \<Rightarrow> pyfloat \<Rightarrow> bool" where
  "plain_float_text t x =
     (\<exists>sg neg body.
         t = sg @ body \<and> sign_text sg neg \<and>
         (((map to_lower body = ''inf'' \<or> map to_lower body = ''infinity'') \<and> x = signed_inf neg) \<or>
          (map to_lower body = ''nan'' \<and> x = NaN) \<or>
          (\<exists>q. decimal_text body q \<and> x = round_binary64 neg q)))"

definition numeric_text :: "string \<Rightarrow> pyfloat \<Rightarrow> bool" where
  "numeric_text s x =
     (underscores_between_digits None s \<and>
      plain_float_text (filter (\<lambda>c. c \<noteq> CHR ''_'') s) x)"

section \<open>Samples with equal sort keys\<close>

text \<open>\<open>has_key k pt\<close>: the sort key of \<open>pt\<close> equals \<open>k\<close> (as \<open>==\<close> compares floats).\<close>

definition has_key :: "pyfloat \<Rightarrow> sample \<Rightarrow> bool" where
  "has_key k pt = (case sort_key pt of Inl e \<Rightarrow> False | Inr k' \<Rightarrow> float_eq k' k)"

section \<open>A worked example\<close>

text \<open>
  The samples parsed from the arguments \<open>0,100000.0,620.0\<close>, \<open>25,82000.0,640.0\<close> and
  \<open>50,N/A,700\<close>, and the list \<open>add_normalized\<close> makes of them.  The second normalized
  throughput is the binary64 value of the literal \<open>0.82\<close>.
\<close>

definition example_points :: "sample list" where
  "example_points =
     [[(''cpu_pct'', Some (Fin 0)), (''throughput'', Some (Fin 100000)), (''latency'', Some (Fin 620))],
      [(''cpu_pct'', Some (Fin 25)), (''throughput'', Some (Fin 82000)), (''latency'', Some (Fin 640))],
      [(''cpu_pct'', Some (Fin 50)), (''throughput'', None), (''latency'', Some (Fin 700))]]"

definition example_normalized :: "sample list" where
  "example_normalized =
     [[(''cpu_pct'', Some (Fin 0)), (''throughput'', Some (Fin 100000)), (''latency'', Some (Fin 620)),
       (''normalized_throughput'', Some (Fin 1))],
      [(''cpu_pct'', Some (Fin 25)), (''throughput'', Some (Fin 82000)), (''latency'', Some (Fin 640)),
       (''normalized_throughput'', Some (Fin (7385903388887613 / 9007199254740992)))],
      [(''cpu_pct'', Some (Fin 50)), (''throughput'', None), (''latency'', Some (Fin 700)),
       (''normalized_throughput'', None)]]"

text \<open>
  The samples parsed from the arguments \<open>0,nan,1\<close>, \<open>1,5,1\<close> and \<open>2,10,1\<close>, and the list
  \<open>add_normalized\<close> makes of them.
\<close>

definition nan_example_points :: "sample list" where
  "nan_example_points =
     [[(''cpu_pct'', Some (Fin 0)), (''throughput'', Some NaN), (''latency'', Some (Fin 1))],
      [(''cpu_pct'', Some (Fin 1)), (''throughput'', Some (Fin 5)), (''latency'', Some (Fin 1))],
      [(''cpu_pct'', Some (Fin 2)), (''throughput'', Some (Fin 10)), (''latency'', Some (Fin 1))]]"

definition nan_example_normalized :: "sample list" where
  "nan_example_normalized =
     [[(''cpu_pct'', Some (Fin 0)), (''throughput'', Some NaN), (''latency'', Some (Fin 1)),
       (''normalized_throughput'', Some NaN)],
      [(''cpu_pct'', Some (Fin 1)), (''throughput'', Some (Fin 5)), (''latency'', Some (Fin 1)),
       (''normalized_throughput'', Some NaN)],
      [(''cpu_pct'', Some (Fin 2)), (''throughput'', Some (Fin 10)), (''latency'', Some (Fin 1)),
       (''normalized_throughput'', Some NaN)]]"

text \<open>
  The samples of the arguments \<open>0,100000.0,620.0\<close> and \<open>25,82000.0,640.0\<close> after
  \<open>add_normalized\<close>, the text \<open>write_csv\<close> writes for them, and the text with the integer
  columns \<open>0,100\<close> and \<open>25,75\<close>.
\<close>

definition csv_example_points :: "sample list" where
  "csv_example_points =
     [[(''cpu_pct'', Some (Fin 0)), (''throughput'', Some (Fin 100000)), (''latency'', Some (Fin 620)),
       (''normalized_throughput'', Some (Fin 1))],
      [(''cpu_pct'', Some (Fin 25)), (''throughput'', Some (Fin 82000)), (''latency'', Some (Fin 640)),
       (''normalized_throughput'', Some (Fin (7385903388887613 / 9007199254740992)))]]"

definition csv_example_text :: string where
  "csv_example_text =
     ''cpu_pct,cpu_availability_pct,throughput,latency,normalized_throughput'' @ [CHR 0x0D, CHR 0x0A]
     @ ''0.0,100.0,100000.00,620.00,1.0000'' @ [CHR 0x0D, CHR 0x0A]
     @ ''25.0,75.0,82000.00,640.00,0.8200'' @ [CHR 0x0D, CHR 0x0A]"

definition csv_claimed_text :: string where
  "csv_claimed_text =
     ''cpu_pct,cpu_availability_pct,throughput,latency,normalized_throughput'' @ [CHR 0x0D, CHR 0x0A]
     @ ''0,100,100000.00,620.00,1.0000'' @ [CHR 0x0D, CHR 0x0A]
     @ ''25,75,82000.00,640.00,0.8200'' @ [CHR 0x0D, CHR 0x0A]"

text \<open>
  Two surroundings, one where importing matplotlib fails and one where saving the figure
  fails, and the options \<open>argparse\<close> fills in when only points are given.
\<close>

definition unavailable_env :: env where
  "unavailable_env =
     \<lparr>env_csv_oserror = None, env_isatty = False,
      env_matplotlib = ImportFails ''No module named matplotlib''\<rparr>"

definition save_fails_env :: env where
  "save_fails_env =
     \<lparr>env_csv_oserror = None, env_isatty = False,
      env_matplotlib = SaveFails (OSError ''[Errno 28] No space left on device'')\<rparr>"

definition default_args :: "string list \<Rightarrow> args" where
  "default_args ps =
     \<lparr>arg_points = ps, arg_format = FormatCsv, arg_output_csv = None,
      arg_plot_out = ''cass_normalized_throughput.png'', arg_no_plot = False\<rparr>"

text \<open>The sample parsed from \<open>c,5,1\<close>, for a given \<open>cpu_pct\<close>.\<close>

definition cpu_sample :: "pyfloat option \<Rightarrow> sample" where
  "cpu_sample cpu = [(''cpu_pct'', cpu), (''throughput'', Some (Fin 5)), (''latency'', Some (Fin 1))]"

section \<open>Properties of the dictionary operations\<close>

lemma map_of_dict_set: "map_of (dict_set pt k v) = (map_of pt)(k \<mapsto> v)"
  by (induction pt k v rule: dict_set.induct) auto

lemma dict_get_dict_set: "dict_get (dict_set pt k v) k' = (if k' = k then v else dict_get pt k')"
  by (simp add: dict_get_def map_of_dict_set)

lemma dict_set_dict_set: "dict_set (dict_set pt k v) k v' = dict_set pt k v'"
  by (induction pt k v rule: dict_set.induct) auto

section \<open>Properties of \<open>add_normalized\<close>\<close>

text \<open>The division in the second loop is guarded by the truth value of \<open>max_thr\<close>.\<close>

lemma normalized_value_Inr: "normalized_value m t = Inr (norm_of m t)"
  by (auto simp: normalized_value_def norm_of_def float_bool_def float_truediv_def
      split: option.splits sum.splits)

lemma set_normalized_map:
  "set_normalized m pts =
     Inr (map (\<lambda>pt. dict_set pt ''normalized_throughput'' (norm_of m (dict_get pt ''throughput''))) pts)"
  by (induction pts) (simp_all add: normalized_value_Inr)

lemma add_normalized_map:
  "add_normalized pts =
     Inr (map (\<lambda>pt. dict_set pt ''normalized_throughput''
            (norm_of (max_throughput None pts) (dict_get pt ''throughput''))) pts)"
  by (simp add: add_normalized_def set_normalized_map)

text \<open>The first loop reads nothing but the throughputs.\<close>

lemma max_throughput_cong:
  "map (\<lambda>pt. dict_get pt ''throughput'') pts = map (\<lambda>pt. dict_get pt ''throughput'') pts'
   \<Longrightarrow> max_throughput acc pts = max_throughput acc pts'"
proof (induction pts arbitrary: acc pts')
  case Nil
  then show ?case by simp
next
  case (Cons pt pts)
  then obtain qt qts where pts': "pts' = qt # qts" by (cases pts') auto
  with Cons.prems have h: "dict_get pt ''throughput'' = dict_get qt ''throughput''"
    and t: "map (\<lambda>pt. dict_get pt ''throughput'') pts = map (\<lambda>pt. dict_get pt ''throughput'') qts"
    by simp_all
  show ?case
    using Cons.IH[OF t] by (simp add: pts' h split: option.splits)
qed

text \<open>
  Claim C7.  The Normalizer is idempotent: \<open>add_normalized\<close> returns without an error,
  and running it again on the list it produced returns without an error and leaves that
  list, every sample and every \<open>normalized_throughput\<close> in it, exactly as it was.
\<close>

theorem add_normalized_idempotent:
  "\<exists>pts1. add_normalized pts = Inr pts1 \<and> add_normalized pts1 = Inr pts1"
proof -
  let ?f = "\<lambda>pt. dict_set pt ''normalized_throughput''
            (norm_of (max_throughput None pts) (dict_get pt ''throughput''))"
  have 1: "add_normalized pts = Inr (map ?f pts)" by (rule add_normalized_map)
  have m: "max_throughput None (map ?f pts) = max_throughput None pts"
    by (rule max_throughput_cong) (simp add: dict_get_dict_set)
  have 2: "add_normalized (map ?f pts) = Inr (map ?f pts)"
    unfolding add_normalized_map[of "map ?f pts"] m
    by (simp add: dict_get_dict_set dict_set_dict_set)
  from 1 2 show ?thesis by blast
qed

section \<open>The maximum found by the first loop\<close>

lemma float_le_trans: "float_le a b \<Longrightarrow> float_le b c \<Longrightarrow> float_le a c"
  by (auto simp: float_le_def)

lemma not_gt_float_le: "a \<noteq> NaN \<Longrightarrow> b \<noteq> NaN \<Longrightarrow> \<not> float_gt a b \<Longrightarrow> float_le a b"
  by (auto simp: float_le_def float_gt_def float_lt_def)

lemma float_gt_le: "float_gt a b \<Longrightarrow> float_le b a"
  by (auto simp: float_le_def float_gt_def float_lt_def)

lemma float_gt_not_nan: "float_gt a b \<Longrightarrow> a \<noteq> NaN \<and> b \<noteq> NaN"
  by (auto simp: float_gt_def float_lt_def)

lemma throughputs_Cons:
  "throughputs (pt # pts) =
     (case dict_get pt ''throughput'' of None \<Rightarrow> throughputs pts | Some t \<Rightarrow> t # throughputs pts)"
  by (simp add: throughputs_def map_filter_simps split: option.splits)

lemma throughputs_Nil: "throughputs [] = []"
  by (simp add: throughputs_def map_filter_simps)

lemma throughputs_nth:
  "i < length pts \<Longrightarrow> dict_get (pts ! i) ''throughput'' = Some t \<Longrightarrow> t \<in> set (throughputs pts)"
  by (induction pts arbitrary: i)
     (auto simp: throughputs_Cons throughputs_Nil nth_Cons split: option.splits nat.splits)

lemma max_throughput_None:
  "max_throughput acc pts = None \<longleftrightarrow> acc = None \<and> throughputs pts = []"
  by (induction pts arbitrary: acc) (auto simp: throughputs_Cons throughputs_Nil split: option.splits)

lemma max_throughput_mem:
  "max_throughput acc pts = Some m \<Longrightarrow> acc = Some m \<or> m \<in> set (throughputs pts)"
  by (induction pts arbitrary: acc) (auto simp: throughputs_Cons throughputs_Nil split: option.splits if_splits)

lemma max_throughput_greatest:
  "max_throughput acc pts = Some m \<Longrightarrow> m \<noteq> NaN \<Longrightarrow>
     (\<forall>a. acc = Some a \<longrightarrow> a \<noteq> NaN \<and> float_le a m) \<and>
     (\<forall>t\<in>set (throughputs pts). t \<noteq> NaN \<longrightarrow> float_le t m)"
proof (induction pts arbitrary: acc)
  case Nil
  then show ?case by (auto simp: throughputs_Nil float_le_def)
next
  case (Cons pt pts)
  show ?case
  proof (cases "dict_get pt ''throughput''")
    case None
    with Cons show ?thesis by (simp add: throughputs_Cons)
  next
    case (Some t)
    show ?thesis
    proof (cases acc)
      case None
      with Some Cons.prems have "max_throughput (Some t) pts = Some m" by simp
      from Cons.IH[OF this Cons.prems(2)] show ?thesis
        using None Some by (simp add: throughputs_Cons)
    next
      case (Some a)
      note acc = this
      show ?thesis
      proof (cases "float_gt t a")
        case True
        with acc \<open>dict_get pt ''throughput'' = Some t\<close> Cons.prems
        have "max_throughput (Some t) pts = Some m" by simp
        from Cons.IH[OF this Cons.prems(2)]
        have 1: "t \<noteq> NaN" "float_le t m"
          and 2: "\<forall>t\<in>set (throughputs pts). t \<noteq> NaN \<longrightarrow> float_le t m" by simp_all
        from True have "a \<noteq> NaN" "float_le a t"
          using float_gt_not_nan float_gt_le by blast+
        with 1 2 show ?thesis
          using acc \<open>dict_get pt ''throughput'' = Some t\<close>
          by (auto simp: throughputs_Cons intro: float_le_trans)
      next
        case False
        with acc \<open>dict_get pt ''throughput'' = Some t\<close> Cons.prems
        have "max_throughput (Some a) pts = Some m" by simp
        from Cons.IH[OF this Cons.prems(2)]
        have 1: "a \<noteq> NaN" "float_le a m"
          and 2: "\<forall>t\<in>set (throughputs pts). t \<noteq> NaN \<longrightarrow> float_le t m" by simp_all
        have "t \<noteq> NaN \<longrightarrow> float_le t m"
          using False 1 not_gt_float_le float_le_trans by blast
        with 1 2 show ?thesis
          using acc \<open>dict_get pt ''throughput'' = Some t\<close>
          by (auto simp: throughputs_Cons)
      qed
    qed
  qed
qed

text \<open>
  A NaN compares greater than nothing and nothing compares greater than it: once \<open>max_thr\<close>
  is NaN it stays NaN, and a NaN never replaces a number.
\<close>

lemma max_throughput_nan_acc: "max_throughput (Some NaN) pts = Some NaN"
  by (induction pts) (auto simp: float_gt_def float_lt_def split: option.splits)

lemma max_throughput_not_nan: "a \<noteq> NaN \<Longrightarrow> max_throughput (Some a) pts \<noteq> Some NaN"
proof (induction pts arbitrary: a)
  case Nil
  then show ?case by simp
next
  case (Cons pt pts)
  show ?case
  proof (cases "dict_get pt ''throughput''")
    case None
    with Cons show ?thesis by simp
  next
    case (Some t)
    show ?thesis
    proof (cases "float_gt t a")
      case True
      then have "t \<noteq> NaN" using float_gt_not_nan by blast
      from Cons.IH[OF this] show ?thesis using Some True by simp
    next
      case False
      with Cons.IH[OF Cons.prems] show ?thesis using Some by simp
    qed
  qed
qed

lemma max_throughput_nan:
  "max_throughput None pts = Some NaN \<longleftrightarrow> throughputs pts \<noteq> [] \<and> hd (throughputs pts) = NaN"
proof (induction pts)
  case Nil
  then show ?case by (simp add: throughputs_Nil)
next
  case (Cons pt pts)
  show ?case
  proof (cases "dict_get pt ''throughput''")
    case None
    with Cons show ?thesis by (simp add: throughputs_Cons)
  next
    case (Some t)
    then show ?thesis
      using max_throughput_nan_acc[of pts] max_throughput_not_nan[of t pts]
      by (cases "t = NaN") (simp_all add: throughputs_Cons)
  qed
qed

lemma norm_of_cases:
  "norm_of mx thr =
     (case mx of None \<Rightarrow> None
      | Some m \<Rightarrow> if is_zero m then None
                  else (case thr of None \<Rightarrow> None
                        | Some t \<Rightarrow> (case float_truediv t m of Inl e \<Rightarrow> None | Inr q \<Rightarrow> Some q)))"
  by (auto simp: norm_of_def normalized_value_def float_bool_def split: option.splits sum.splits)

text \<open>
  Claim C1, amended.  For every list of samples \<open>add_normalized\<close> returns without raising
  (in particular without \<open>ZeroDivisionError\<close>) and rebinds \<open>normalized_throughput\<close> in
  every sample: to \<open>None\<close> when \<open>max_thr\<close> is undefined, when \<open>max_thr\<close> is zero, or when
  the sample's throughput is \<open>None\<close>, and to \<open>throughput / max_thr\<close> otherwise.  \<open>max_thr\<close>
  is undefined exactly when no sample has a throughput; otherwise it is one of the
  throughputs.  It is NaN exactly when the first throughput that is not \<open>None\<close> is NaN;
  in every other case it is greater than or equal to every throughput that is a number,
  the NaN ones being passed over.
\<close>

theorem add_normalized_spec:
  "\<exists>pts'. add_normalized pts = Inr pts' \<and> length pts' = length pts \<and>
     (\<forall>i<length pts. \<exists>v.
        pts' ! i = dict_set (pts ! i) ''normalized_throughput'' v \<and>
        (case max_throughput None pts of
           None \<Rightarrow> v = None
         | Some m \<Rightarrow>
             if is_zero m then v = None
             else (case dict_get (pts ! i) ''throughput'' of
                     None \<Rightarrow> v = None
                   | Some t \<Rightarrow> \<exists>q. float_truediv t m = Inr q \<and> v = Some q))) \<and>
     (max_throughput None pts = None \<longleftrightarrow> throughputs pts = []) \<and>
     (\<forall>m. max_throughput None pts = Some m \<longrightarrow>
        m \<in> set (throughputs pts) \<and>
        (m = NaN \<longleftrightarrow> hd (throughputs pts) = NaN) \<and>
        (m \<noteq> NaN \<longrightarrow> (\<forall>t\<in>set (throughputs pts). t \<noteq> NaN \<longrightarrow> float_le t m)))"
proof -
  let ?mx = "max_throughput None pts"
  let ?f = "\<lambda>pt. dict_set pt ''normalized_throughput'' (norm_of ?mx (dict_get pt ''throughput''))"
  have 1: "add_normalized pts = Inr (map ?f pts)" by (rule add_normalized_map)
  have 2: "\<forall>i<length pts. \<exists>v.
        map ?f pts ! i = dict_set (pts ! i) ''normalized_throughput'' v \<and>
        (case ?mx of
           None \<Rightarrow> v = None
         | Some m \<Rightarrow>
             if is_zero m then v = None
             else (case dict_get (pts ! i) ''throughput'' of
                     None \<Rightarrow> v = None
                   | Some t \<Rightarrow> \<exists>q. float_truediv t m = Inr q \<and> v = Some q))"
  proof (intro allI impI)
    fix i assume i: "i < length pts"
    let ?v = "norm_of ?mx (dict_get (pts ! i) ''throughput'')"
    have "map ?f pts ! i = dict_set (pts ! i) ''normalized_throughput'' ?v"
      using i by simp
    moreover have "(case ?mx of
           None \<Rightarrow> ?v = None
         | Some m \<Rightarrow>
             if is_zero m then ?v = None
             else (case dict_get (pts ! i) ''throughput'' of
                     None \<Rightarrow> ?v = None
                   | Some t \<Rightarrow> \<exists>q. float_truediv t m = Inr q \<and> ?v = Some q))"
      by (auto simp: norm_of_cases float_truediv_def split: option.splits)
    ultimately show "\<exists>v. map ?f pts ! i = dict_set (pts ! i) ''normalized_throughput'' v \<and>
        (case ?mx of
           None \<Rightarrow> v = None
         | Some m \<Rightarrow>
             if is_zero m then v = None
             else (case dict_get (pts ! i) ''throughput'' of
                     None \<Rightarrow> v = None
                   | Some t \<Rightarrow> \<exists>q. float_truediv t m = Inr q \<and> v = Some q))"
      by blast
  qed
  have 3: "?mx = None \<longleftrightarrow> throughputs pts = []"
    by (simp add: max_throughput_None)
  have 4: "\<forall>m. ?mx = Some m \<longrightarrow>
        m \<in> set (throughputs pts) \<and>
        (m \<noteq> NaN \<longrightarrow> (\<forall>t\<in>set (throughputs pts). t \<noteq> NaN \<longrightarrow> float_le t m))"
    using max_throughput_mem[of None pts] max_throughput_greatest[of None pts] by blast
  have 5: "\<forall>m. ?mx = Some m \<longrightarrow> (m = NaN \<longleftrightarrow> hd (throughputs pts) = NaN)"
  proof (intro allI impI)
    fix m assume m: "?mx = Some m"
    then have "throughputs pts \<noteq> []" using 3 by auto
    with m max_throughput_nan[of pts] show "m = NaN \<longleftrightarrow> hd (throughputs pts) = NaN" by auto
  qed
  from 1 2 3 4 5 show ?thesis by simp
qed

section \<open>Rounding to binary64 stays inside the unit interval\<close>

lemma digit_count_mono: "n \<le> n' \<Longrightarrow> digit_count b n \<le> digit_count b n'"
proof (induction b n arbitrary: n' rule: digit_count.induct)
  case (1 b n)
  show ?case
  proof (cases "n \<le> 0 \<or> b < 2")
    case True
    have "0 \<le> digit_count b n'" for n'
      by (induction b n' rule: digit_count.induct) (simp add: digit_count.simps)
    with True show ?thesis by (simp add: digit_count.simps[of b n])
  next
    case False
    with 1 have "digit_count b (n div b) \<le> digit_count b (n' div b)"
      by (simp add: zdiv_mono1)
    with False 1(2) show ?thesis
      by (simp add: digit_count.simps[of b n] digit_count.simps[of b n'])
  qed
qed

lemma ilog_le_0: "0 < a \<Longrightarrow> a \<le> 1 \<Longrightarrow> ilog 2 a \<le> 0"
proof -
  assume a: "0 < a" "a \<le> 1"
  obtain n d where q: "quotient_of a = (n, d)" by (cases "quotient_of a")
  then have d: "0 < d" and eq: "a = of_int n / of_int d"
    using quotient_of_denom_pos quotient_of_div by blast+
  with a have "n \<le> d"
    by simp
  then have "digit_count 2 n \<le> digit_count 2 d"
    by (rule digit_count_mono)
  then show ?thesis
    by (simp add: ilog_def q Let_def)
qed

lemma round_half_even_nonneg: "0 \<le> x \<Longrightarrow> 0 \<le> round_half_even x"
  by (auto simp: round_half_even_def Let_def)

lemma round_half_even_le: "x \<le> of_int k \<Longrightarrow> round_half_even x \<le> k"
proof -
  assume x: "x \<le> of_int k"
  then have f: "\<lfloor>x\<rfloor> \<le> k" by (simp add: floor_le_iff)
  show ?thesis
  proof (cases "\<lfloor>x\<rfloor> = k")
    case True
    with x have "x - of_int \<lfloor>x\<rfloor> \<le> 0" by simp
    then show ?thesis using True by (simp add: round_half_even_def Let_def)
  next
    case False
    with f have "\<lfloor>x\<rfloor> + 1 \<le> k" by simp
    then show ?thesis by (auto simp: round_half_even_def Let_def)
  qed
qed

lemma round_binary64_unit:
  assumes "0 < a" "a \<le> 1"
  shows "\<exists>r. round_binary64 False a = Fin r \<and> 0 \<le> r \<and> r \<le> 1"
proof -
  define e where "e = max (ilog 2 a) (- 1022)"
  define k where "k = nat (52 - e)"
  define m where "m = round_half_even (a * 2 ^ k)"
  have e: "e \<le> 0" using ilog_le_0[OF assms] by (simp add: e_def)
  then have u: "pow_int 2 (e - 52) = 1 / 2 ^ k"
    by (simp add: pow_int_def k_def)
  have m0: "0 \<le> m" unfolding m_def using assms by (intro round_half_even_nonneg) simp
  have "a * 2 ^ k \<le> of_int (2 ^ k)" using assms by simp
  then have mk: "m \<le> 2 ^ k" unfolding m_def by (rule round_half_even_le)
  then have "(of_int m :: rat) \<le> 2 ^ k" by (metis of_int_le_iff of_int_numeral of_int_power)
  then have r1: "of_int m * (1 / 2 ^ k) \<le> (1::rat)" by (simp add: divide_le_eq)
  have r0: "0 \<le> of_int m * (1 / 2 ^ k :: rat)" using m0 by simp
  have "round_binary64 False a = (if m = 0 then Fin 0 else Fin (of_int m * (1 / 2 ^ k)))"
    using assms(1) e
    by (simp add: round_binary64_def Let_def e_def[symmetric] u m_def signed_zero_def)
  with r0 r1 show ?thesis by auto
qed

lemma round_binary64_one: "round_binary64 False 1 = Fin 1"
  by code_simp

section \<open>Quotients by the maximum\<close>

lemma float_truediv_self:
  "float_eq t m \<Longrightarrow> \<not> is_zero m \<Longrightarrow> \<not> is_inf m \<Longrightarrow> float_truediv t m = Inr (Fin 1)"
  by (cases m; cases t)
     (auto simp: float_eq_def is_zero_def is_inf_def float_truediv_def round_binary64_one)

lemma float_truediv_unit:
  assumes "float_le (Fin 0) t" "float_le t m" "\<not> is_zero m" "\<not> is_inf m"
  shows "\<exists>v. float_truediv t m = Inr v \<and> float_le (Fin 0) v \<and> float_le v (Fin 1)"
proof -
  from assms obtain q where m: "m = Fin q" and q: "0 < q"
    by (cases m; cases t) (auto simp: float_le_def is_zero_def is_inf_def)
  from assms(1,2) m consider (zero) "t = Fin 0" | (negzero) "t = NegZero"
    | (pos) r where "t = Fin r" "0 < r" "r \<le> q"
    by (cases t) (auto simp: float_le_def less_le)
  then show ?thesis
  proof cases
    case zero
    then show ?thesis using m q
      by (simp add: float_truediv_def is_zero_def is_inf_def round_binary64_def signed_zero_def float_le_def)
  next
    case negzero
    then show ?thesis using m q
      by (simp add: float_truediv_def is_zero_def is_inf_def round_binary64_def signed_zero_def float_le_def)
  next
    case pos
    then have "0 < r / q" "r / q \<le> 1" using q by simp_all
    from round_binary64_unit[OF this] obtain x where
      "round_binary64 False (r / q) = Fin x" "0 \<le> x" "x \<le> 1" by blast
    then show ?thesis using m q pos
      by (simp add: float_truediv_def is_zero_def is_inf_def float_le_def)
  qed
qed

text \<open>
  Claim C10, amended.  After \<open>add_normalized\<close> the key \<open>normalized_throughput\<close> is
  present in every sample, and whenever \<open>max_thr\<close> is defined, not zero and not an
  infinity, every sample whose throughput equals \<open>max_thr\<close> has the normalized throughput
  \<open>1.0\<close>, also when \<open>max_thr\<close> is negative.
\<close>

theorem max_sample_normalized_one:
  "\<exists>pts'. add_normalized pts = Inr pts' \<and> length pts' = length pts \<and>
     (\<forall>i<length pts.
        (\<exists>v. map_of (pts' ! i) ''normalized_throughput'' = Some v) \<and>
        (\<forall>m t. max_throughput None pts = Some m \<and> \<not> is_zero m \<and> \<not> is_inf m \<and>
               dict_get (pts ! i) ''throughput'' = Some t \<and> float_eq t m \<longrightarrow>
               dict_get (pts' ! i) ''normalized_throughput'' = Some (Fin 1)))"
  by (auto simp: add_normalized_map map_of_dict_set dict_get_dict_set norm_of_cases
      float_truediv_self)

text \<open>
  Claim C8, amended.  Whenever \<open>max_thr\<close> is defined, not zero, not an infinity and not
  NaN, every sample whose throughput is a number \<open>\<ge> 0\<close> receives a normalized throughput
  in the closed interval \<open>[0, 1]\<close>; the value \<open>0\<close> is attained.  No clamping is applied.
\<close>

theorem normalized_in_unit_interval:
  "\<exists>pts'. add_normalized pts = Inr pts' \<and> length pts' = length pts \<and>
     (\<forall>i<length pts. \<forall>m t.
        max_throughput None pts = Some m \<and> \<not> is_zero m \<and> \<not> is_inf m \<and> m \<noteq> NaN \<and>
        dict_get (pts ! i) ''throughput'' = Some t \<and> float_le (Fin 0) t \<longrightarrow>
        (\<exists>v. dict_get (pts' ! i) ''normalized_throughput'' = Some v \<and>
             float_le (Fin 0) v \<and> float_le v (Fin 1)))"
proof -
  let ?mx = "max_throughput None pts"
  let ?f = "\<lambda>pt. dict_set pt ''normalized_throughput'' (norm_of ?mx (dict_get pt ''throughput''))"
  have "\<exists>v. dict_get (map ?f pts ! i) ''normalized_throughput'' = Some v \<and>
             float_le (Fin 0) v \<and> float_le v (Fin 1)"
    if i: "i < length pts" and mx: "?mx = Some m" and m: "\<not> is_zero m" "\<not> is_inf m" "m \<noteq> NaN"
      and t: "dict_get (pts ! i) ''throughput'' = Some t" "float_le (Fin 0) t" for i m t
  proof -
    from t(2) have "t \<noteq> NaN" by (auto simp: float_le_def)
    moreover from i t(1) have "t \<in> set (throughputs pts)" by (rule throughputs_nth)
    ultimately have "float_le t m"
      using max_throughput_greatest[OF mx m(3)] by blast
    from float_truediv_unit[OF t(2) this m(1,2)] show ?thesis
      using i mx m t(1) by (auto simp: dict_get_dict_set norm_of_cases)
  qed
  then show ?thesis
    unfolding add_normalized_map by auto
qed

section \<open>The example, evaluated\<close>

lemma example_points_parsed:
  "map parse_point [''0,100000.0,620.0'', ''25,82000.0,640.0'', ''50,N/A,700'']
     = map Inr example_points"
  by code_simp

lemma example_points_normalized: "add_normalized example_points = Inr example_normalized"
  by code_simp

lemma example_points_max: "max_throughput None example_points = Some (Fin 100000)"
  by code_simp

lemma literal_082: "float_of_string ''0.82'' = Some (Fin (7385903388887613 / 9007199254740992))"
  by code_simp

lemma example_throughputs: "throughputs example_points = [Fin 100000, Fin 82000]"
  by code_simp

text \<open>
  The example of claim C1: throughputs \<open>[100000, 82000, None]\<close> give the normalized
  values \<open>[1.0, 0.82, None]\<close>, the maximum \<open>100000\<close> is not NaN, as the first throughput,
  and is at least the throughput \<open>82000\<close>, and a list whose throughputs are all \<open>None\<close>
  gets \<open>None\<close> everywhere.
\<close>

theorem add_normalized_spec_witness:
  "add_normalized example_points = Inr example_normalized \<and>
   dict_get (example_normalized ! 0) ''normalized_throughput'' = float_of_string ''1.0'' \<and>
   dict_get (example_normalized ! 1) ''normalized_throughput'' = float_of_string ''0.82'' \<and>
   dict_get (example_normalized ! 2) ''normalized_throughput'' = None \<and>
   max_throughput None example_points = Some (Fin 100000) \<and>
   Fin 82000 \<in> set (throughputs example_points) \<and>
   hd (throughputs example_points) \<noteq> NaN \<and>
   float_le (Fin 82000) (Fin 100000) \<and>
   add_normalized [[(''throughput'', None)], [(''throughput'', None)]] =
     Inr [[(''throughput'', None), (''normalized_throughput'', None)],
          [(''throughput'', None), (''normalized_throughput'', None)]]"
proof -
  have 1: "dict_get (example_normalized ! 0) ''normalized_throughput'' = float_of_string ''1.0''"
    by code_simp
  have 2: "dict_get (example_normalized ! 1) ''normalized_throughput'' = float_of_string ''0.82''"
    by code_simp
  have 3: "dict_get (example_normalized ! 2) ''normalized_throughput'' = None"
    by code_simp
  have 4: "add_normalized [[(''throughput'', None)], [(''throughput'', None)]] =
     Inr [[(''throughput'', None), (''normalized_throughput'', None)],
          [(''throughput'', None), (''normalized_throughput'', None)]]"
    by code_simp
  have 5: "Fin 82000 \<in> set (throughputs example_points)"
    by (simp add: example_throughputs)
  from add_normalized_spec[of example_points] 5
  have "float_le (Fin 82000) (Fin 100000)"
    by (auto simp: example_points_max)
  moreover from add_normalized_spec[of example_points]
  have "hd (throughputs example_points) \<noteq> NaN"
    by (auto simp: example_points_max)
  ultimately show ?thesis using 1 2 3 4 5
    by (simp add: example_points_normalized example_points_max)
qed

text \<open>
  Against claim C1 as stated, which takes \<open>max_thr\<close> to be the maximum of the throughputs:
  for the arguments \<open>0,nan,1\<close>, \<open>1,5,1\<close> and \<open>2,10,1\<close> the first throughput is NaN, no later
  one compares greater, \<open>max_thr\<close> is NaN although \<open>10\<close> is among the throughputs and is not
  less than or equal to it, and every normalized throughput is NaN.
\<close>

theorem max_throughput_nan_counterexample:
  "parse_points [''0,nan,1'', ''1,5,1'', ''2,10,1''] = Inr nan_example_points \<and>
   max_throughput None nan_example_points = Some NaN \<and>
   Fin 10 \<in> set (throughputs nan_example_points) \<and> \<not> float_le (Fin 10) NaN \<and>
   add_normalized nan_example_points = Inr nan_example_normalized \<and>
   map (\<lambda>pt. dict_get pt ''normalized_throughput'') nan_example_normalized =
     [Some NaN, Some NaN, Some NaN]"
proof -
  have 1: "parse_points [''0,nan,1'', ''1,5,1'', ''2,10,1''] = Inr nan_example_points"
    by code_simp
  have 2: "max_throughput None nan_example_points = Some NaN" by code_simp
  have 3: "throughputs nan_example_points = [NaN, Fin 5, Fin 10]" by code_simp
  have 4: "add_normalized nan_example_points = Inr nan_example_normalized" by code_simp
  have 5: "map (\<lambda>pt. dict_get pt ''normalized_throughput'') nan_example_normalized =
     [Some NaN, Some NaN, Some NaN]" by code_simp
  from 1 2 3 4 5 show ?thesis by (simp add: float_le_def)
qed

text \<open>
  The second sample of the example: its throughput \<open>82000\<close> is not negative and its
  normalized throughput lies in \<open>[0, 1]\<close>.
\<close>

theorem normalized_in_unit_interval_witness:
  "(1::nat) < length example_points \<and>
   max_throughput None example_points = Some (Fin 100000) \<and>
   \<not> is_zero (Fin 100000) \<and> \<not> is_inf (Fin 100000) \<and> Fin 100000 \<noteq> NaN \<and>
   dict_get (example_points ! 1) ''throughput'' = Some (Fin 82000) \<and> float_le (Fin 0) (Fin 82000) \<and>
   add_normalized example_points = Inr example_normalized \<and>
   (\<exists>v. dict_get (example_normalized ! 1) ''normalized_throughput'' = Some v \<and>
        float_le (Fin 0) v \<and> float_le v (Fin 1))"
proof -
  have l: "(1::nat) < length example_points" by (simp add: example_points_def)
  have t: "dict_get (example_points ! 1) ''throughput'' = Some (Fin 82000)" by code_simp
  have h: "\<not> is_zero (Fin 100000)" "\<not> is_inf (Fin 100000)" "float_le (Fin 0) (Fin 82000)"
    by (simp_all add: is_zero_def is_inf_def float_le_def)
  from normalized_in_unit_interval[of example_points] l t h
  have "\<exists>v. dict_get (example_normalized ! 1) ''normalized_throughput'' = Some v \<and>
        float_le (Fin 0) v \<and> float_le v (Fin 1)"
    by (simp add: example_points_normalized example_points_max)
  with l t h show ?thesis
    by (simp add: example_points_normalized example_points_max)
qed

text \<open>
  Against claim C8 as stated: for the arguments \<open>0,0,1\<close> and \<open>25,100,1\<close> the maximum is
  \<open>100\<close>, the first throughput \<open>0\<close> is not negative, and its normalized throughput is
  \<open>0\<close>, which is not in \<open>(0, 1]\<close>.
\<close>

theorem normalized_zero_counterexample:
  "map parse_point [''0,0,1'', ''25,100,1''] =
     [Inr [(''cpu_pct'', Some (Fin 0)), (''throughput'', Some (Fin 0)), (''latency'', Some (Fin 1))],
      Inr [(''cpu_pct'', Some (Fin 25)), (''throughput'', Some (Fin 100)), (''latency'', Some (Fin 1))]] \<and>
   max_throughput None
     [[(''cpu_pct'', Some (Fin 0)), (''throughput'', Some (Fin 0)), (''latency'', Some (Fin 1))],
      [(''cpu_pct'', Some (Fin 25)), (''throughput'', Some (Fin 100)), (''latency'', Some (Fin 1))]]
     = Some (Fin 100) \<and>
   float_bool (Fin 100) \<and> float_le (Fin 0) (Fin 0) \<and>
   add_normalized
     [[(''cpu_pct'', Some (Fin 0)), (''throughput'', Some (Fin 0)), (''latency'', Some (Fin 1))],
      [(''cpu_pct'', Some (Fin 25)), (''throughput'', Some (Fin 100)), (''latency'', Some (Fin 1))]]
     = Inr [[(''cpu_pct'', Some (Fin 0)), (''throughput'', Some (Fin 0)), (''latency'', Some (Fin 1)),
             (''normalized_throughput'', Some (Fin 0))],
            [(''cpu_pct'', Some (Fin 25)), (''throughput'', Some (Fin 100)), (''latency'', Some (Fin 1)),
             (''normalized_throughput'', Some (Fin 1))]] \<and>
   \<not> float_lt (Fin 0) (Fin 0)"
  by code_simp

text \<open>
  Two negative throughputs \<open>-5\<close> and \<open>-10\<close>: the maximum \<open>-5\<close> is normalized to \<open>1.0\<close>
  (and \<open>-10\<close> to \<open>2.0\<close>).
\<close>

theorem max_sample_normalized_one_witness:
  "(0::nat) < length [[(''throughput'', Some (Fin (- 5)))], [(''throughput'', Some (Fin (- 10)))]] \<and>
   max_throughput None [[(''throughput'', Some (Fin (- 5)))], [(''throughput'', Some (Fin (- 10)))]]
     = Some (Fin (- 5)) \<and>
   \<not> is_zero (Fin (- 5)) \<and> \<not> is_inf (Fin (- 5)) \<and> float_eq (Fin (- 5)) (Fin (- 5)) \<and>
   add_normalized [[(''throughput'', Some (Fin (- 5)))], [(''throughput'', Some (Fin (- 10)))]]
     = Inr [[(''throughput'', Some (Fin (- 5))), (''normalized_throughput'', Some (Fin 1))],
            [(''throughput'', Some (Fin (- 10))), (''normalized_throughput'', Some (Fin 2))]]"
proof -
  let ?ex = "[[(''throughput'', Some (Fin (- 5)))], [(''throughput'', Some (Fin (- 10)))]]"
  have mx: "max_throughput None ?ex = Some (Fin (- 5))" by code_simp
  have h: "\<not> is_zero (Fin (- 5))" "\<not> is_inf (Fin (- 5))" "float_eq (Fin (- 5)) (Fin (- 5))"
    by (simp_all add: is_zero_def is_inf_def float_eq_def)
  have r: "add_normalized ?ex
     = Inr [[(''throughput'', Some (Fin (- 5))), (''normalized_throughput'', Some (Fin 1))],
            [(''throughput'', Some (Fin (- 10))), (''normalized_throughput'', Some (Fin 2))]]"
    by code_simp
  from max_sample_normalized_one[of ?ex] mx h
  have "dict_get [(''throughput'', Some (Fin (- 5))), (''normalized_throughput'', Some (Fin 1))]
          ''normalized_throughput'' = Some (Fin 1)"
    by (simp add: r dict_get_def)
  with mx h r show ?thesis by simp
qed

text \<open>
  Against claim C10 as stated: for the argument \<open>0,inf,1\<close> the maximum is \<open>inf\<close>, which
  is defined and not zero, the sample's throughput equals it, and its normalized throughput
  is \<open>inf / inf\<close>, which is NaN and not \<open>1.0\<close>.
\<close>

theorem max_sample_infinite_counterexample:
  "parse_point ''0,inf,1'' =
     Inr [(''cpu_pct'', Some (Fin 0)), (''throughput'', Some PosInf), (''latency'', Some (Fin 1))] \<and>
   max_throughput None
     [[(''cpu_pct'', Some (Fin 0)), (''throughput'', Some PosInf), (''latency'', Some (Fin 1))]]
     = Some PosInf \<and>
   float_bool PosInf \<and> float_eq PosInf PosInf \<and>
   add_normalized
     [[(''cpu_pct'', Some (Fin 0)), (''throughput'', Some PosInf), (''latency'', Some (Fin 1))]]
     = Inr [[(''cpu_pct'', Some (Fin 0)), (''throughput'', Some PosInf), (''latency'', Some (Fin 1)),
             (''normalized_throughput'', Some NaN)]] \<and>
   \<not> float_eq NaN (Fin 1)"
  by code_simp

section \<open>The renderers: no exception for parsed samples, and the list handed on\<close>

lemma split_on_nonempty: "split_on d s \<noteq> []"
  by (induction s) (auto split: list.splits)

lemma length_split_on: "length (split_on d s) = Suc (count_list s d)"
  using split_on_nonempty[of d] by (induction s) (auto split: list.splits)

lemma malformed_iff: "malformed p \<longleftrightarrow> count_list p (CHR '','') \<noteq> 2"
  by (simp add: malformed_def length_split_on)

lemma parse_point_malformed:
  "malformed p \<Longrightarrow> parse_point p = Inl (ValueError (bad_point_message p))"
  by (simp add: parse_point_def malformed_def Let_def)

lemma parse_point_wellformed:
  "\<not> malformed p \<Longrightarrow>
     parse_point p =
       Inr [(''cpu_pct'', parse_num (split_on (CHR '','') p ! 0)),
            (''throughput'', parse_num (split_on (CHR '','') p ! 1)),
            (''latency'', parse_num (split_on (CHR '','') p ! 2))]"
  by (simp add: parse_point_def malformed_def Let_def)

lemma parse_point_has_fields: "parse_point p = Inr pt \<Longrightarrow> has_fields pt"
  by (cases "malformed p") (auto simp: parse_point_malformed parse_point_wellformed has_fields_def)

lemma parse_points_Inr:
  "parse_points ps = Inr pts \<Longrightarrow> list_all has_fields pts \<and> length pts = length ps \<and> (\<forall>p\<in>set ps. \<not> malformed p)"
proof (induction ps arbitrary: pts)
  case Nil
  then show ?case by simp
next
  case (Cons p ps)
  then show ?case
    by (cases "malformed p")
       (auto simp: parse_point_malformed parse_point_wellformed has_fields_def split: sum.splits)
qed

lemma parse_points_Inl:
  "parse_points ps = Inl e \<Longrightarrow> \<exists>p\<in>set ps. malformed p \<and> e = ValueError (bad_point_message p)"
proof (induction ps)
  case Nil
  then show ?case by simp
next
  case (Cons p ps)
  then show ?case
    by (cases "malformed p")
       (auto simp: parse_point_malformed parse_point_wellformed split: sum.splits)
qed

lemma parse_points_malformed:
  "(\<exists>p\<in>set ps. malformed p) \<longleftrightarrow> (\<exists>e. parse_points ps = Inl e)"
  using parse_points_Inr[of ps] parse_points_Inl[of ps]
  by (cases "parse_points ps") auto

lemma has_fields_dict_set: "has_fields pt \<Longrightarrow> has_fields (dict_set pt k v)"
  by (simp add: has_fields_def map_of_dict_set)

lemma add_normalized_has_fields:
  "list_all has_fields pts \<Longrightarrow> add_normalized pts = Inr pts' \<Longrightarrow> list_all has_fields pts' \<and> length pts' = length pts"
  by (auto simp: add_normalized_map list_all_iff has_fields_dict_set)

lemma dict_item_has_fields:
  "has_fields pt \<Longrightarrow>
     (\<exists>c. dict_item pt ''cpu_pct'' = Inr c) \<and> (\<exists>t. dict_item pt ''throughput'' = Inr t) \<and>
     (\<exists>l. dict_item pt ''latency'' = Inr l)"
  by (auto simp: has_fields_def dict_item_def)

lemma csv_row_has_fields: "has_fields pt \<Longrightarrow> \<exists>r. csv_row pt = Inr r"
  using dict_item_has_fields[of pt] by (auto simp: csv_row_def Let_def)

lemma table_row_has_fields: "has_fields pt \<Longrightarrow> \<exists>r. table_row pt = Inr r"
  using dict_item_has_fields[of pt] by (auto simp: table_row_def Let_def)

text \<open>The loop of a renderer hands the list on as it received it.\<close>

lemma write_rows_frame: "snd (write_rows row n i points) = points"
proof (induction n arbitrary: i)
  case 0
  then show ?case by simp
next
  case (Suc n)
  show ?case
  proof (cases "row (points ! i)")
    case (Inl e)
    then show ?thesis by simp
  next
    case (Inr r)
    with Suc[of "Suc i"] show ?thesis
      by (cases "write_rows row n (Suc i) points") (auto split: prod.splits)
  qed
qed

lemma write_csv_frame: "snd (write_csv points) = points"
  using write_rows_frame[of csv_row "length points" 0 points]
  by (cases "write_rows csv_row (length points) 0 points") (auto simp: write_csv_def split: prod.splits)

lemma print_table_frame: "snd (print_table points) = points"
  using write_rows_frame[of table_row "length points" 0 points]
  by (cases "write_rows table_row (length points) 0 points")
     (auto simp: print_table_def split: prod.splits)

lemma write_rows_no_error:
  "\<forall>j. i \<le> j \<and> j < i + n \<longrightarrow> (\<exists>r. row (points ! j) = Inr r)
   \<Longrightarrow> snd (fst (write_rows row n i points)) = None"
proof (induction n arbitrary: i)
  case 0
  then show ?case by simp
next
  case (Suc n)
  then obtain r where r: "row (points ! i) = Inr r" by auto
  from Suc.prems have "\<forall>j. Suc i \<le> j \<and> j < Suc i + n \<longrightarrow> (\<exists>r. row (points ! j) = Inr r)"
    by auto
  from Suc.IH[OF this] show ?case
    by (cases "write_rows row n (Suc i) points") (auto simp: r split: prod.splits)
qed

lemma write_csv_no_error: "list_all has_fields pts \<Longrightarrow> snd (fst (write_csv pts)) = None"
  using write_rows_no_error[of 0 "length pts" csv_row pts]
  by (cases "write_rows csv_row (length pts) 0 pts")
     (auto simp: write_csv_def list_all_length csv_row_has_fields split: prod.splits)

lemma print_table_no_error: "list_all has_fields pts \<Longrightarrow> snd (fst (print_table pts)) = None"
  using write_rows_no_error[of 0 "length pts" table_row pts]
  by (cases "write_rows table_row (length pts) 0 pts")
     (auto simp: print_table_def list_all_length table_row_has_fields split: prod.splits)

lemma sort_key_has_fields: "has_fields pt \<Longrightarrow> \<exists>k. sort_key pt = Inr k"
  using dict_item_has_fields[of pt] by (auto simp: sort_key_def split: option.splits)

lemma keyed_has_fields:
  "list_all has_fields pts \<Longrightarrow> \<exists>kps. keyed pts = Inr kps \<and> map snd kps = pts"
proof (induction pts)
  case Nil
  then show ?case by simp
next
  case (Cons pt pts)
  then show ?case using sort_key_has_fields[of pt] by auto
qed

lemma set_insert_keyed: "set (insert_keyed x ys) = insert x (set ys)"
  by (induction ys) auto

lemma length_insert_keyed: "length (insert_keyed x ys) = Suc (length ys)"
  by (induction ys) auto

lemma set_sort_keyed: "set (sort_keyed xs) = set xs"
  by (induction xs) (auto simp: sort_keyed_def set_insert_keyed)

lemma length_sort_keyed: "length (sort_keyed xs) = length xs"
  by (induction xs) (auto simp: sort_keyed_def length_insert_keyed)

lemma sorted_points_has_fields:
  assumes "list_all has_fields pts"
  shows "\<exists>xs. sorted_points pts = Inr xs \<and> list_all has_fields xs \<and> length xs = length pts"
proof -
  from keyed_has_fields[OF assms] obtain kps where k: "keyed pts = Inr kps" "map snd kps = pts"
    by blast
  have "set (map snd (sort_keyed kps)) = set pts"
    using k(2) by (metis set_map set_sort_keyed)
  moreover have "length (sort_keyed kps) = length pts"
    using k(2) by (metis length_map length_sort_keyed)
  ultimately show ?thesis
    using assms k(1) by (simp add: sorted_points_def list_all_iff)
qed

lemma bar_label_has_fields: "has_fields pt \<Longrightarrow> \<exists>l. bar_label pt = Inr l"
  using dict_item_has_fields[of pt] by (auto simp: bar_label_def split: option.splits)

lemma bar_labels_has_fields:
  "list_all has_fields pts \<Longrightarrow> \<exists>ls. bar_labels pts = Inr ls \<and> length ls = length pts"
proof (induction pts)
  case Nil
  then show ?case by simp
next
  case (Cons pt pts)
  then show ?case using bar_label_has_fields[of pt] by auto
qed

lemma plot_value_has_fields:
  assumes "list_all has_fields pts"
  shows "plot_value (plot mpl pts path) =
           (case mpl of
              ImportFails msg \<Rightarrow> Inr False
            | SaveFails e \<Rightarrow> if pts = [] then Inr False else Inl e
            | SaveOk \<Rightarrow> Inr (pts \<noteq> []))"
proof -
  from sorted_points_has_fields[OF assms] obtain xs where
    xs: "sorted_points pts = Inr xs" "list_all has_fields xs" "length xs = length pts" by blast
  from bar_labels_has_fields[OF xs(2)] obtain ls where
    ls: "bar_labels xs = Inr ls" "length ls = length xs" by blast
  have "ls = [] \<longleftrightarrow> pts = []" using ls(2) xs(3) by auto
  then show ?thesis
    by (cases mpl) (simp_all add: plot_def xs(1) ls(1) Let_def)
qed

lemma plot_stdout_has_fields:
  assumes "list_all has_fields pts"
  shows "plot_stdout (plot mpl pts path) =
           (if mpl = SaveOk \<and> pts \<noteq> [] then ''Wrote plot to '' @ path @ [CHR 0x0A] else [])"
proof -
  from sorted_points_has_fields[OF assms] obtain xs where
    xs: "sorted_points pts = Inr xs" "list_all has_fields xs" "length xs = length pts" by blast
  from bar_labels_has_fields[OF xs(2)] obtain ls where
    ls: "bar_labels xs = Inr ls" "length ls = length xs" by blast
  have "ls = [] \<longleftrightarrow> pts = []" using ls(2) xs(3) by auto
  then show ?thesis
    by (cases mpl) (simp_all add: plot_def xs(1) ls(1) Let_def)
qed

lemma main_plot_outcome:
  assumes "list_all has_fields pts"
  shows "fst (main_plot ev a pts w) =
           (case env_matplotlib ev of
              SaveFails e \<Rightarrow> if plot_requested a \<and> pts \<noteq> [] then Raised e else Returned 0
            | _ \<Rightarrow> Returned 0)"
  using plot_value_has_fields[OF assms, of "env_matplotlib ev" "arg_plot_out a"]
  by (cases "env_matplotlib ev")
     (auto simp: main_plot_def plot_requested_def Let_def split: sum.splits)

lemma main_plot_stdout:
  assumes "list_all has_fields pts"
  shows "stdout (snd (main_plot ev a pts w)) =
           stdout w @ (if plot_requested a \<and> env_matplotlib ev = SaveOk \<and> pts \<noteq> []
                       then ''Wrote plot to '' @ arg_plot_out a @ [CHR 0x0A] else [])"
  using plot_stdout_has_fields[OF assms, of "env_matplotlib ev" "arg_plot_out a"]
  by (auto simp: main_plot_def plot_requested_def Let_def split: sum.splits)

lemma main_stdout_outcome:
  assumes "list_all has_fields pts"
  shows "fst (main_stdout ev a pts w) =
           (case env_matplotlib ev of
              SaveFails e \<Rightarrow> if plot_requested a \<and> pts \<noteq> [] then Raised e else Returned 0
            | _ \<Rightarrow> Returned 0)"
proof -
  obtain o1 e1 p1 where c: "write_csv pts = ((o1, e1), p1)" by (metis prod.exhaust)
  obtain o2 e2 p2 where t: "print_table pts = ((o2, e2), p2)" by (metis prod.exhaust)
  from c write_csv_no_error[OF assms] write_csv_frame[of pts] have c': "e1 = None" "p1 = pts"
    by simp_all
  from t print_table_no_error[OF assms] print_table_frame[of pts] have t': "e2 = None" "p2 = pts"
    by simp_all
  show ?thesis
    by (cases "arg_format a") (simp_all add: main_stdout_def c t c' t' main_plot_outcome[OF assms])
qed

lemma main_csv_file_outcome:
  assumes "list_all has_fields pts"
  shows "fst (main_csv_file ev a pts w) =
           (if csv_requested a \<and> env_csv_oserror ev \<noteq> None then Returned 1
            else (case env_matplotlib ev of
                    SaveFails e \<Rightarrow> if plot_requested a \<and> pts \<noteq> [] then Raised e else Returned 0
                  | _ \<Rightarrow> Returned 0))"
proof -
  obtain o1 e1 p1 where c: "write_csv pts = ((o1, e1), p1)" by (metis prod.exhaust)
  from c write_csv_no_error[OF assms] write_csv_frame[of pts] have c': "e1 = None" "p1 = pts"
    by simp_all
  show ?thesis
    by (auto simp: main_csv_file_def csv_requested_def c c' main_stdout_outcome[OF assms]
        split: option.splits)
qed

lemma main_outcome:
  "fst (main ev a) =
     (if (\<exists>p\<in>set (arg_points a). malformed p) \<or> (csv_requested a \<and> env_csv_oserror ev \<noteq> None)
      then Returned 1
      else (case env_matplotlib ev of
              SaveFails e \<Rightarrow>
                if plot_requested a \<and> arg_points a \<noteq> [] then Raised e else Returned 0
            | _ \<Rightarrow> Returned 0))"
proof (cases "parse_points (arg_points a)")
  case (Inl e)
  from parse_points_Inl[OF Inl] obtain p where
    "p \<in> set (arg_points a)" "malformed p" "e = ValueError (bad_point_message p)" by blast
  then show ?thesis using Inl by (auto simp: main_def)
next
  case (Inr pts0)
  from parse_points_Inr[OF Inr] have p0: "list_all has_fields pts0" "length pts0 = length (arg_points a)"
    and nm: "\<not> (\<exists>p\<in>set (arg_points a). malformed p)" by auto
  obtain pts where n: "add_normalized pts0 = Inr pts" by (simp add: add_normalized_map)
  from add_normalized_has_fields[OF p0(1) n] have p: "list_all has_fields pts" "length pts = length pts0"
    by auto
  have "pts = [] \<longleftrightarrow> arg_points a = []" using p(2) p0(2) by auto
  then show ?thesis
    using nm by (auto simp: main_def Inr n main_csv_file_outcome[OF p(1)] split: mpl_status.splits)
qed

lemma main_malformed_world:
  assumes "p \<in> set (arg_points a)" "malformed p"
  shows "\<exists>q\<in>set (arg_points a). malformed q \<and>
           main ev a = (Returned 1, world0\<lparr>stderr := bad_point_message q @ [CHR 0x0A]\<rparr>)"
proof -
  from assms obtain e where e: "parse_points (arg_points a) = Inl e"
    using parse_points_malformed by blast
  from parse_points_Inl[OF e] obtain q where
    "q \<in> set (arg_points a)" "malformed q" "e = ValueError (bad_point_message q)" by blast
  then show ?thesis using e by (auto simp: main_def)
qed

section \<open>The raw fields of a sample\<close>



section \<open>The CSV output of the end-to-end example\<close>

lemma csv_example_parsed:
  "parse_points [''0,100000.0,620.0'', ''25,82000.0,640.0''] = Inr (map (take 3) csv_example_points)"
  by code_simp

lemma csv_example_normalized:
  "add_normalized (map (take 3) csv_example_points) = Inr csv_example_points"
  by code_simp

lemma csv_example_written:
  "write_csv csv_example_points = ((csv_example_text, None), csv_example_points)"
  by code_simp

lemma csv_example_has_fields: "list_all has_fields csv_example_points"
  by (simp add: csv_example_points_def has_fields_def)

lemma csv_example_nonempty: "csv_example_points \<noteq> []"
  by (simp add: csv_example_points_def)

text \<open>
  Claim C5, amended.  For the arguments \<open>0,100000.0,620.0\<close> and \<open>25,82000.0,640.0\<close> with
  \<open>--format csv\<close> (and no \<open>--output-csv\<close>), whatever the other options and the
  surroundings are, the standard output consists of the header line
  \<open>cpu_pct,cpu_availability_pct,throughput,latency,normalized_throughput\<close>, the row
  \<open>0.0,100.0,100000.00,620.00,1.0000\<close> and the row \<open>25.0,75.0,82000.00,640.00,0.8200\<close>, in
  input order, each ended by \<open>\r\n\<close>, followed by the line \<open>Wrote plot to\<close> with the path
  exactly when the plot is requested and saved, and by nothing else.  The first two
  columns are floats and are written with their \<open>repr\<close>.
\<close>

theorem csv_stdout_example:
  "stdout (snd (main ev (a\<lparr>arg_points := [''0,100000.0,620.0'', ''25,82000.0,640.0''],
                         arg_format := FormatCsv, arg_output_csv := None\<rparr>)))
     = csv_example_text @
         (if plot_requested a \<and> env_matplotlib ev = SaveOk
          then ''Wrote plot to '' @ arg_plot_out a @ [CHR 0x0A] else [])"
  by (simp add: main_def csv_example_parsed csv_example_normalized main_csv_file_def
      main_stdout_def csv_example_written main_plot_stdout[OF csv_example_has_fields]
      csv_example_nonempty world0_def plot_requested_def del: parse_points.simps)

text \<open>
  Against claim C5 as stated: the text written for the two samples differs from the text
  with the rows \<open>0,100,...\<close> and \<open>25,75,...\<close>.
\<close>

theorem csv_stdout_counterexample:
  "fst (write_csv csv_example_points) = (csv_example_text, None) \<and>
   csv_example_text \<noteq> csv_claimed_text"
  by (simp add: csv_example_written) (simp add: csv_example_text_def csv_claimed_text_def)

section \<open>The outcome of \<open>main\<close>\<close>

text \<open>
  Claim C3, amended.  \<open>main\<close> returns 1 exactly when some positional argument is
  malformed or the requested \<open>--output-csv\<close> file fails to open or write.  When neither
  is the case and the chart is not drawn or saved with an exception (matplotlib missing
  included), \<open>main\<close> returns 0.  An exception raised while the chart is drawn or saved is
  not caught: when a plot is requested for at least one point it leaves \<open>main\<close>, which
  then returns nothing.
\<close>

theorem main_exit_code:
  "(fst (main ev a) = Returned 1 \<longleftrightarrow>
      (\<exists>p\<in>set (arg_points a). malformed p) \<or> (csv_requested a \<and> env_csv_oserror ev \<noteq> None)) \<and>
   (fst (main ev a) \<noteq> Returned 1 \<and> (\<forall>e. env_matplotlib ev \<noteq> SaveFails e) \<longrightarrow>
      fst (main ev a) = Returned 0) \<and>
   (\<forall>e. fst (main ev a) \<noteq> Returned 1 \<and> env_matplotlib ev = SaveFails e \<longrightarrow>
      fst (main ev a) = (if plot_requested a \<and> arg_points a \<noteq> [] then Raised e else Returned 0))"
  by (auto simp: main_outcome split: mpl_status.splits)

lemma malformed_examples:
  "\<not> malformed ''0,100000.0,620.0''" "malformed ''x,y''" "malformed ''x,y,z,w''" "\<not> malformed ''x,y,z''"
  by (simp_all add: malformed_def)

text \<open>
  With matplotlib missing, one well-formed argument gives the return value 0, and a
  malformed second argument gives 1.
\<close>

theorem main_exit_code_witness:
  "\<not> malformed ''0,100000.0,620.0'' \<and> \<not> csv_requested (default_args [''0,100000.0,620.0'']) \<and>
   fst (main unavailable_env (default_args [''0,100000.0,620.0''])) = Returned 0 \<and>
   malformed ''x,y'' \<and>
   fst (main unavailable_env (default_args [''0,100000.0,620.0'', ''x,y''])) = Returned 1"
  using main_exit_code[of unavailable_env "default_args [''0,100000.0,620.0'']"]
    main_exit_code[of unavailable_env "default_args [''0,100000.0,620.0'', ''x,y'']"]
  by (simp add: malformed_examples csv_requested_def default_args_def unavailable_env_def)

text \<open>
  Against claim C3 as stated: one well-formed argument, no CSV file requested, and
  \<open>savefig\<close> raising \<open>OSError\<close>: \<open>main\<close> does not return 0, the exception leaves it.
\<close>

theorem main_chart_write_counterexample:
  "\<not> malformed ''0,100000.0,620.0'' \<and> \<not> csv_requested (default_args [''0,100000.0,620.0'']) \<and>
   env_matplotlib save_fails_env = SaveFails (OSError ''[Errno 28] No space left on device'') \<and>
   fst (main save_fails_env (default_args [''0,100000.0,620.0'']))
     = Raised (OSError ''[Errno 28] No space left on device'') \<and>
   fst (main save_fails_env (default_args [''0,100000.0,620.0''])) \<noteq> Returned 0"
  by (simp add: main_outcome malformed_examples csv_requested_def plot_requested_def
      default_args_def save_fails_env_def)

text \<open>
  Claim C2.  \<open>parse_point\<close> raises exactly when the token does not split into three
  fields, that is, when it does not contain exactly two commas; the exception is the
  \<open>ValueError\<close> whose message contains the token; a token with three fields gives a
  sample with its three raw fields.  In \<open>main\<close> a malformed argument ends the run with
  the return value 1, with nothing written to the standard output, no CSV file and no
  plot.
\<close>

theorem parse_point_format_error:
  "((\<exists>e. parse_point tok = Inl e) \<longleftrightarrow> malformed tok) \<and>
   (malformed tok \<longleftrightarrow> count_list tok (CHR '','') \<noteq> 2) \<and>
   (\<forall>e. parse_point tok = Inl e \<longrightarrow> e = ValueError (bad_point_message tok)) \<and>
   (\<exists>pre post. bad_point_message tok = pre @ tok @ post) \<and>
   (\<not> malformed tok \<longrightarrow> (\<exists>pt. parse_point tok = Inr pt \<and> has_fields pt)) \<and>
   (tok \<in> set (arg_points a) \<and> malformed tok \<longrightarrow>
      fst (main ev a) = Returned 1 \<and> stdout (snd (main ev a)) = [] \<and>
      csv_file (snd (main ev a)) = None \<and> plot_written (snd (main ev a)) = None)"
proof -
  have 1: "(\<exists>e. parse_point tok = Inl e) \<longleftrightarrow> malformed tok"
    by (cases "malformed tok") (simp_all add: parse_point_malformed parse_point_wellformed)
  have 3: "\<forall>e. parse_point tok = Inl e \<longrightarrow> e = ValueError (bad_point_message tok)"
    by (cases "malformed tok") (simp_all add: parse_point_malformed parse_point_wellformed)
  have 4: "\<exists>pre post. bad_point_message tok = pre @ tok @ post"
    unfolding bad_point_message_def by (metis append.assoc)
  have 5: "\<not> malformed tok \<longrightarrow> (\<exists>pt. parse_point tok = Inr pt \<and> has_fields pt)"
    using parse_point_has_fields[of tok] 1 by (cases "parse_point tok") auto
  have 6: "tok \<in> set (arg_points a) \<and> malformed tok \<longrightarrow>
      fst (main ev a) = Returned 1 \<and> stdout (snd (main ev a)) = [] \<and>
      csv_file (snd (main ev a)) = None \<and> plot_written (snd (main ev a)) = None"
    using main_malformed_world[of tok a ev] by (auto simp: world0_def)
  from 1 3 4 5 6 show ?thesis by (simp add: malformed_iff)
qed

lemma parse_point_xyz:
  "parse_point ''x,y,z'' = Inr [(''cpu_pct'', None), (''throughput'', None), (''latency'', None)]"
  by code_simp

text \<open>
  \<open>x,y\<close> and \<open>x,y,z,w\<close> raise, \<open>x,y,z\<close> gives a sample whose fields are all \<open>None\<close>, and
  a run with the arguments \<open>0,100000.0,620.0\<close> and \<open>x,y\<close> returns 1 with an empty
  standard output.
\<close>

theorem parse_point_format_error_witness:
  "malformed ''x,y'' \<and> parse_point ''x,y'' = Inl (ValueError (bad_point_message ''x,y'')) \<and>
   malformed ''x,y,z,w'' \<and> parse_point ''x,y,z,w'' = Inl (ValueError (bad_point_message ''x,y,z,w'')) \<and>
   \<not> malformed ''x,y,z'' \<and>
   parse_point ''x,y,z'' = Inr [(''cpu_pct'', None), (''throughput'', None), (''latency'', None)] \<and>
   ''x,y'' \<in> set (arg_points (default_args [''0,100000.0,620.0'', ''x,y''])) \<and>
   fst (main unavailable_env (default_args [''0,100000.0,620.0'', ''x,y''])) = Returned 1 \<and>
   stdout (snd (main unavailable_env (default_args [''0,100000.0,620.0'', ''x,y'']))) = []"
proof -
  have m: "''x,y'' \<in> set (arg_points (default_args [''0,100000.0,620.0'', ''x,y'']))"
    by (simp add: default_args_def)
  from parse_point_format_error[of "''x,y''" "default_args [''0,100000.0,620.0'', ''x,y'']" unavailable_env]
  have a: "parse_point ''x,y'' = Inl (ValueError (bad_point_message ''x,y''))"
    "fst (main unavailable_env (default_args [''0,100000.0,620.0'', ''x,y''])) = Returned 1"
    "stdout (snd (main unavailable_env (default_args [''0,100000.0,620.0'', ''x,y'']))) = []"
    using m malformed_examples(2) by auto
  from parse_point_format_error[of "''x,y,z,w''" "default_args []" unavailable_env]
  have b: "parse_point ''x,y,z,w'' = Inl (ValueError (bad_point_message ''x,y,z,w''))"
    using malformed_examples(3) by auto
  from a b m show ?thesis
    by (simp add: malformed_examples parse_point_xyz)
qed

section \<open>The display order of the chart\<close>

lemma float_le_refl: "a \<noteq> NaN \<Longrightarrow> float_le a a"
  by (simp add: float_le_def)

lemma float_lt_le: "float_lt a b \<Longrightarrow> float_le a b"
  by (auto simp: float_le_def float_lt_def)

lemma not_float_lt_le: "a \<noteq> NaN \<Longrightarrow> b \<noteq> NaN \<Longrightarrow> \<not> float_lt a b \<Longrightarrow> float_le b a"
  by (auto simp: float_le_def float_lt_def)

lemma float_lt_not_le: "float_lt a b \<Longrightarrow> \<not> float_le b a"
  by (auto simp: float_le_def float_lt_def)

lemma mset_insert_keyed: "mset (insert_keyed x ys) = add_mset x (mset ys)"
  by (induction ys) auto

lemma mset_sort_keyed: "mset (sort_keyed xs) = mset xs"
  by (induction xs) (auto simp: sort_keyed_def mset_insert_keyed)

lemma sorted_insert_keyed:
  assumes "fst x \<noteq> NaN" "\<forall>y\<in>set ys. fst y \<noteq> NaN"
    and "sorted_wrt (\<lambda>a b. float_le (fst a) (fst b)) ys"
  shows "sorted_wrt (\<lambda>a b. float_le (fst a) (fst b)) (insert_keyed x ys)"
  using assms
proof (induction ys)
  case Nil
  then show ?case by simp
next
  case (Cons y ys)
  show ?case
  proof (cases "float_lt (fst y) (fst x)")
    case True
    then have yx: "float_le (fst y) (fst x)" by (rule float_lt_le)
    have "sorted_wrt (\<lambda>a b. float_le (fst a) (fst b)) (insert_keyed x ys)"
      using Cons by simp
    then show ?thesis
      using True yx Cons.prems(3) by (auto simp: set_insert_keyed)
  next
    case False
    with Cons.prems have xy: "float_le (fst x) (fst y)"
      by (intro not_float_lt_le) simp_all
    moreover have "\<forall>z\<in>set ys. float_le (fst x) (fst z)"
      using Cons.prems(3) xy float_le_trans by auto
    ultimately show ?thesis using False Cons.prems(3) by simp
  qed
qed

lemma sorted_sort_keyed:
  "\<forall>y\<in>set xs. fst y \<noteq> NaN \<Longrightarrow> sorted_wrt (\<lambda>a b. float_le (fst a) (fst b)) (sort_keyed xs)"
proof (induction xs)
  case Nil
  then show ?case by (simp add: sort_keyed_def)
next
  case (Cons x xs)
  then have "sorted_wrt (\<lambda>a b. float_le (fst a) (fst b)) (sort_keyed xs)" by simp
  moreover have "\<forall>y\<in>set (sort_keyed xs). fst y \<noteq> NaN"
    using Cons.prems by (simp add: set_sort_keyed)
  ultimately have "sorted_wrt (\<lambda>a b. float_le (fst a) (fst b)) (insert_keyed x (sort_keyed xs))"
    using Cons.prems by (intro sorted_insert_keyed) simp_all
  then show ?case by (simp add: sort_keyed_def)
qed

text \<open>
  The sort is stable: the elements whose keys are equal stay in the order of the input.
\<close>

lemma float_lt_not_eq: "float_lt a b \<Longrightarrow> float_eq b k \<Longrightarrow> \<not> float_eq a k"
  by (auto simp: float_lt_def float_eq_def)

lemma filter_insert_keyed:
  "filter (\<lambda>y. float_eq (fst y) k) (insert_keyed x ys) = filter (\<lambda>y. float_eq (fst y) k) (x # ys)"
proof (induction ys)
  case Nil
  then show ?case by simp
next
  case (Cons y ys)
  show ?case
  proof (cases "float_lt (fst y) (fst x)")
    case True
    with float_lt_not_eq[of "fst y" "fst x" k] Cons show ?thesis by auto
  next
    case False
    then show ?thesis by simp
  qed
qed

lemma filter_sort_keyed:
  "filter (\<lambda>y. float_eq (fst y) k) (sort_keyed xs) = filter (\<lambda>y. float_eq (fst y) k) xs"
proof (induction xs)
  case Nil
  then show ?case by (simp add: sort_keyed_def)
next
  case (Cons x xs)
  have "filter (\<lambda>y. float_eq (fst y) k) (sort_keyed (x # xs)) =
        filter (\<lambda>y. float_eq (fst y) k) (x # sort_keyed xs)"
    by (simp only: sort_keyed_def foldr.simps o_apply filter_insert_keyed)
  with Cons show ?case by simp
qed

lemma keyed_keys:
  "keyed pts = Inr kps \<Longrightarrow> map snd kps = pts \<and> (\<forall>(k, pt)\<in>set kps. sort_key pt = Inr k)"
proof (induction pts arbitrary: kps)
  case Nil
  then show ?case by simp
next
  case (Cons pt pts)
  then show ?case by (auto split: sum.splits)
qed

lemma sorted_points_sorted:
  assumes "sorted_points pts = Inr xs" and "\<forall>pt\<in>set pts. sort_key pt \<noteq> Inr NaN"
  shows "mset xs = mset pts"
    and "\<And>i j. i < j \<Longrightarrow> j < length xs \<Longrightarrow>
           \<exists>ki kj. sort_key (xs ! i) = Inr ki \<and> sort_key (xs ! j) = Inr kj \<and> float_le ki kj"
proof -
  from assms(1) obtain kps where k: "keyed pts = Inr kps" and xs: "xs = map snd (sort_keyed kps)"
    by (auto simp: sorted_points_def split: sum.splits)
  from keyed_keys[OF k] have kp: "map snd kps = pts" and kk: "\<forall>(k, pt)\<in>set kps. sort_key pt = Inr k"
    by auto
  have "mset xs = image_mset snd (mset (sort_keyed kps))" by (simp add: xs)
  also have "\<dots> = mset (map snd kps)" by (simp add: mset_sort_keyed)
  finally show "mset xs = mset pts" by (simp add: kp)
  have nn: "\<forall>y\<in>set kps. fst y \<noteq> NaN"
  proof
    fix y assume y: "y \<in> set kps"
    with kk have "sort_key (snd y) = Inr (fst y)" by auto
    moreover from y kp have "snd y \<in> set pts" by force
    ultimately show "fst y \<noteq> NaN" using assms(2) by force
  qed
  from sorted_sort_keyed[OF nn] have s: "sorted_wrt (\<lambda>a b. float_le (fst a) (fst b)) (sort_keyed kps)" .
  fix i j assume ij: "i < j" "j < length xs"
  then have l: "i < length (sort_keyed kps)" "j < length (sort_keyed kps)" by (simp_all add: xs)
  from s ij l have le: "float_le (fst (sort_keyed kps ! i)) (fst (sort_keyed kps ! j))"
    by (simp add: sorted_wrt_iff_nth_less)
  have "sort_keyed kps ! i \<in> set kps" "sort_keyed kps ! j \<in> set kps"
    using l set_sort_keyed[of kps] nth_mem by blast+
  with kk have "sort_key (snd (sort_keyed kps ! i)) = Inr (fst (sort_keyed kps ! i))"
    "sort_key (snd (sort_keyed kps ! j)) = Inr (fst (sort_keyed kps ! j))" by auto
  with le l show "\<exists>ki kj. sort_key (xs ! i) = Inr ki \<and> sort_key (xs ! j) = Inr kj \<and> float_le ki kj"
    by (simp add: xs)
qed

lemma sorted_points_stable:
  assumes "sorted_points pts = Inr xs"
  shows "filter (has_key k) xs = filter (has_key k) pts"
proof -
  from assms obtain kps where kd: "keyed pts = Inr kps" and xs: "xs = map snd (sort_keyed kps)"
    by (auto simp: sorted_points_def split: sum.splits)
  from keyed_keys[OF kd] have kp: "map snd kps = pts" and kk: "\<forall>(k, pt)\<in>set kps. sort_key pt = Inr k"
    by auto
  have hk: "has_key k (snd y) = float_eq (fst y) k" if "y \<in> set kps" for y
    using kk that by (auto simp: has_key_def)
  have "filter (has_key k) xs = map snd (filter (\<lambda>y. has_key k (snd y)) (sort_keyed kps))"
    by (simp add: xs filter_map o_def)
  also have "filter (\<lambda>y. has_key k (snd y)) (sort_keyed kps) =
             filter (\<lambda>y. float_eq (fst y) k) (sort_keyed kps)"
    by (rule filter_cong) (simp_all add: hk set_sort_keyed)
  also have "\<dots> = filter (\<lambda>y. float_eq (fst y) k) kps" by (rule filter_sort_keyed)
  also have "\<dots> = filter (\<lambda>y. has_key k (snd y)) kps"
    by (rule filter_cong) (simp_all add: hk)
  also have "map snd \<dots> = filter (has_key k) (map snd kps)"
    by (simp add: filter_map o_def)
  finally show ?thesis by (simp add: kp)
qed

text \<open>
  Claim C9, amended.  When \<open>sorted\<close> returns and no \<open>cpu_pct\<close> is NaN, the display order
  is a permutation of the samples in ascending order of the key, the samples with equal
  keys in the order of the input, and a sample whose \<open>cpu_pct\<close> is missing has the key
  \<open>999\<close>: it is placed after every sample whose \<open>cpu_pct\<close> is present and less than
  \<open>999\<close>, and before every sample whose \<open>cpu_pct\<close> is greater than \<open>999\<close>.
\<close>

theorem missing_cpu_sorts_as_999:
  assumes "sorted_points pts = Inr xs" and "\<forall>pt\<in>set pts. sort_key pt \<noteq> Inr NaN"
  shows "mset xs = mset pts \<and>
     (\<forall>i j. i < j \<and> j < length xs \<longrightarrow>
        (\<exists>ki kj. sort_key (xs ! i) = Inr ki \<and> sort_key (xs ! j) = Inr kj \<and> float_le ki kj)) \<and>
     (\<forall>k. filter (has_key k) xs = filter (has_key k) pts) \<and>
     (\<forall>i j c. i < length xs \<and> j < length xs \<and>
        dict_item (xs ! i) ''cpu_pct'' = Inr None \<and> dict_item (xs ! j) ''cpu_pct'' = Inr (Some c) \<longrightarrow>
        (float_lt c (Fin 999) \<longrightarrow> j < i) \<and> (float_lt (Fin 999) c \<longrightarrow> i < j))"
proof -
  note s = sorted_points_sorted[OF assms]
  have "(float_lt c (Fin 999) \<longrightarrow> j < i) \<and> (float_lt (Fin 999) c \<longrightarrow> i < j)"
    if h: "i < length xs" "j < length xs" "dict_item (xs ! i) ''cpu_pct'' = Inr None"
      "dict_item (xs ! j) ''cpu_pct'' = Inr (Some c)" for i j c
  proof -
    have ki: "sort_key (xs ! i) = Inr (Fin 999)" and kj: "sort_key (xs ! j) = Inr c"
      using h(3,4) by (simp_all add: sort_key_def)
    have ne: "i \<noteq> j" using h(3,4) by auto
    have "j < i" if lt: "float_lt c (Fin 999)"
    proof (rule ccontr)
      assume "\<not> j < i"
      with ne have "i < j" by simp
      from s(2)[OF this h(2)] ki kj have "float_le (Fin 999) c" by simp
      with float_lt_not_le[OF lt] show False by simp
    qed
    moreover have "i < j" if lt: "float_lt (Fin 999) c"
    proof (rule ccontr)
      assume "\<not> i < j"
      with ne have "j < i" by simp
      from s(2)[OF this h(1)] ki kj have "float_le c (Fin 999)" by simp
      with float_lt_not_le[OF lt] show False by simp
    qed
    ultimately show ?thesis by simp
  qed
  with s sorted_points_stable[OF assms(1)] show ?thesis by blast
qed

lemma sort_key_cpu_sample:
  "sort_key (cpu_sample None) = Inr (Fin 999)" "sort_key (cpu_sample (Some c)) = Inr c"
  "dict_item (cpu_sample cpu) ''cpu_pct'' = Inr cpu"
  by (simp_all add: sort_key_def dict_item_def cpu_sample_def)

lemma sorted_example:
  "sorted_points [cpu_sample (Some (Fin 50)), cpu_sample None, cpu_sample (Some (Fin 25))] =
     Inr [cpu_sample (Some (Fin 25)), cpu_sample (Some (Fin 50)), cpu_sample None]"
  by (simp add: sorted_points_def sort_key_cpu_sample sort_keyed_def float_lt_def)

lemma sorted_tie_example:
  "sorted_points [cpu_sample None, cpu_sample (Some (Fin 999)), cpu_sample (Some (Fin 25))] =
     Inr [cpu_sample (Some (Fin 25)), cpu_sample None, cpu_sample (Some (Fin 999))]"
  "sorted_points [cpu_sample (Some (Fin 999)), cpu_sample None, cpu_sample (Some (Fin 25))] =
     Inr [cpu_sample (Some (Fin 25)), cpu_sample (Some (Fin 999)), cpu_sample None]"
  by (simp_all add: sorted_points_def sort_key_cpu_sample sort_keyed_def float_lt_def)

lemma has_key_cpu_sample:
  "has_key (Fin 999) (cpu_sample None)" "has_key (Fin 999) (cpu_sample (Some (Fin 999)))"
  "\<not> has_key (Fin 999) (cpu_sample (Some (Fin 25)))"
  by (simp_all add: has_key_def sort_key_cpu_sample float_eq_def)

text \<open>
  The samples with \<open>cpu_pct\<close> 50, missing and 25 are displayed in the order 25, 50,
  missing.  A sample without \<open>cpu_pct\<close> and a sample whose \<open>cpu_pct\<close> is 999 have equal
  keys: they are displayed after 25 and in the order of the input, whichever comes first.
\<close>

theorem missing_cpu_sorts_as_999_witness:
  "sorted_points [cpu_sample (Some (Fin 50)), cpu_sample None, cpu_sample (Some (Fin 25))] =
     Inr [cpu_sample (Some (Fin 25)), cpu_sample (Some (Fin 50)), cpu_sample None] \<and>
   sort_key (cpu_sample (Some (Fin 50))) \<noteq> Inr NaN \<and> sort_key (cpu_sample None) \<noteq> Inr NaN \<and>
   sort_key (cpu_sample (Some (Fin 25))) \<noteq> Inr NaN \<and>
   mset [cpu_sample (Some (Fin 25)), cpu_sample (Some (Fin 50)), cpu_sample None] =
     mset [cpu_sample (Some (Fin 50)), cpu_sample None, cpu_sample (Some (Fin 25))] \<and>
   dict_item ([cpu_sample (Some (Fin 25)), cpu_sample (Some (Fin 50)), cpu_sample None] ! 2) ''cpu_pct''
     = Inr None \<and>
   dict_item ([cpu_sample (Some (Fin 25)), cpu_sample (Some (Fin 50)), cpu_sample None] ! 1) ''cpu_pct''
     = Inr (Some (Fin 50)) \<and>
   float_lt (Fin 50) (Fin 999) \<and> (1::nat) < 2 \<and>
   sorted_points [cpu_sample None, cpu_sample (Some (Fin 999)), cpu_sample (Some (Fin 25))] =
     Inr [cpu_sample (Some (Fin 25)), cpu_sample None, cpu_sample (Some (Fin 999))] \<and>
   sort_key (cpu_sample (Some (Fin 999))) \<noteq> Inr NaN \<and>
   filter (has_key (Fin 999))
      [cpu_sample (Some (Fin 25)), cpu_sample None, cpu_sample (Some (Fin 999))] =
     [cpu_sample None, cpu_sample (Some (Fin 999))] \<and>
   sorted_points [cpu_sample (Some (Fin 999)), cpu_sample None, cpu_sample (Some (Fin 25))] =
     Inr [cpu_sample (Some (Fin 25)), cpu_sample (Some (Fin 999)), cpu_sample None] \<and>
   filter (has_key (Fin 999))
      [cpu_sample (Some (Fin 25)), cpu_sample (Some (Fin 999)), cpu_sample None] =
     [cpu_sample (Some (Fin 999)), cpu_sample None]"
proof -
  have nn: "sort_key (cpu_sample (Some (Fin 50))) \<noteq> Inr NaN" "sort_key (cpu_sample None) \<noteq> Inr NaN"
    "sort_key (cpu_sample (Some (Fin 25))) \<noteq> Inr NaN"
    "sort_key (cpu_sample (Some (Fin 999))) \<noteq> Inr NaN"
    by (simp_all add: sort_key_cpu_sample)
  from missing_cpu_sorts_as_999[OF sorted_example] nn
  have a: "mset [cpu_sample (Some (Fin 25)), cpu_sample (Some (Fin 50)), cpu_sample None] =
     mset [cpu_sample (Some (Fin 50)), cpu_sample None, cpu_sample (Some (Fin 25))]"
    by simp
  from missing_cpu_sorts_as_999[OF sorted_tie_example(1)] nn
  have "filter (has_key (Fin 999))
      [cpu_sample (Some (Fin 25)), cpu_sample None, cpu_sample (Some (Fin 999))] =
     filter (has_key (Fin 999))
      [cpu_sample None, cpu_sample (Some (Fin 999)), cpu_sample (Some (Fin 25))]"
    by simp
  then have b: "filter (has_key (Fin 999))
      [cpu_sample (Some (Fin 25)), cpu_sample None, cpu_sample (Some (Fin 999))] =
     [cpu_sample None, cpu_sample (Some (Fin 999))]"
    by (simp add: has_key_cpu_sample)
  from missing_cpu_sorts_as_999[OF sorted_tie_example(2)] nn
  have "filter (has_key (Fin 999))
      [cpu_sample (Some (Fin 25)), cpu_sample (Some (Fin 999)), cpu_sample None] =
     filter (has_key (Fin 999))
      [cpu_sample (Some (Fin 999)), cpu_sample None, cpu_sample (Some (Fin 25))]"
    by simp
  then have c: "filter (has_key (Fin 999))
      [cpu_sample (Some (Fin 25)), cpu_sample (Some (Fin 999)), cpu_sample None] =
     [cpu_sample (Some (Fin 999)), cpu_sample None]"
    by (simp add: has_key_cpu_sample)
  from a b c nn show ?thesis
    by (simp add: sort_key_cpu_sample sorted_example sorted_tie_example float_lt_def)
qed

text \<open>
  Against claim C9 as stated: for the arguments \<open>1000,5,1\<close> and \<open>N/A,5,1\<close> the sample
  without \<open>cpu_pct\<close> is displayed first, before the sample whose \<open>cpu_pct\<close> is 1000.
\<close>

theorem missing_cpu_before_large_counterexample:
  "parse_points [''1000,5,1'', ''N/A,5,1''] = Inr [cpu_sample (Some (Fin 1000)), cpu_sample None] \<and>
   sorted_points [cpu_sample (Some (Fin 1000)), cpu_sample None] =
     Inr [cpu_sample None, cpu_sample (Some (Fin 1000))] \<and>
   dict_item ([cpu_sample None, cpu_sample (Some (Fin 1000))] ! 0) ''cpu_pct'' = Inr None \<and>
   dict_item ([cpu_sample None, cpu_sample (Some (Fin 1000))] ! 1) ''cpu_pct'' = Inr (Some (Fin 1000))"
proof -
  have "parse_points [''1000,5,1'', ''N/A,5,1''] = Inr [cpu_sample (Some (Fin 1000)), cpu_sample None]"
    by code_simp
  moreover have "sorted_points [cpu_sample (Some (Fin 1000)), cpu_sample None] =
     Inr [cpu_sample None, cpu_sample (Some (Fin 1000))]"
    by (simp add: sorted_points_def sort_key_cpu_sample sort_keyed_def float_lt_def)
  ultimately show ?thesis by (simp add: sort_key_cpu_sample)
qed

section \<open>The numeric coercion of \<open>parse_point\<close>\<close>

subsection \<open>Trimming\<close>

lemma strip_chars_decomp:
  "\<exists>a b. s = a @ strip_chars P s @ b \<and> list_all P a \<and> list_all P b"
proof -
  let ?u = "dropWhile P s"
  let ?b = "rev (takeWhile P (rev ?u))"
  have u: "?u = strip_chars P s @ ?b"
    unfolding strip_chars_def by (metis rev_append rev_rev_ident takeWhile_dropWhile_id)
  have "s = takeWhile P s @ ?u" by simp
  with u have "s = takeWhile P s @ strip_chars P s @ ?b" by simp
  moreover have "list_all P (takeWhile P s)" "list_all P ?b"
    by (auto simp: list_all_iff dest: set_takeWhileD)
  ultimately show ?thesis by blast
qed

lemma strip_chars_ends:
  "strip_chars P s = [] \<or> (\<not> P (hd (strip_chars P s)) \<and> \<not> P (last (strip_chars P s)))"
proof -
  let ?u = "dropWhile P s"
  let ?w = "dropWhile P (rev ?u)"
  show ?thesis
  proof (cases "?w = []")
    case True
    then show ?thesis by (simp add: strip_chars_def)
  next
    case False
    then have hw: "\<not> P (hd ?w)" by (rule hd_dropWhile)
    have u: "?u = rev ?w @ rev (takeWhile P (rev ?u))"
      by (metis rev_append rev_rev_ident takeWhile_dropWhile_id)
    have "?u \<noteq> []"
    proof
      assume "?u = []"
      then have "?w = []" by (simp only: rev.simps dropWhile.simps)
      with False show False by simp
    qed
    then have "\<not> P (hd ?u)" by (rule hd_dropWhile)
    moreover from u False have "hd ?u = hd (rev ?w)" by (metis hd_append2 rev_is_Nil_conv)
    ultimately have "\<not> P (hd (rev ?w))" by simp
    moreover have "last (rev ?w) = hd ?w" using False by (simp add: last_rev)
    ultimately show ?thesis using hw by (simp add: strip_chars_def)
  qed
qed

lemma strip_chars_id:
  assumes "s = [] \<or> (\<not> P (hd s) \<and> \<not> P (last s))"
  shows "strip_chars P s = s"
proof (cases "s = []")
  case True
  then show ?thesis by (simp add: strip_chars_def)
next
  case False
  with assms have 1: "dropWhile P s = s" by (simp add: dropWhile_eq_self_iff)
  from False assms have "dropWhile P (rev s) = rev s"
    by (simp add: dropWhile_eq_self_iff hd_rev)
  with 1 show ?thesis by (simp add: strip_chars_def)
qed

lemma strip_chars_absorb:
  assumes "\<And>c. P c \<Longrightarrow> Q c"
  shows "strip_chars P (strip_chars Q s) = strip_chars Q s"
  using strip_chars_ends[of Q s] assms by (intro strip_chars_id) auto

lemma strip_strip: "strip (strip s) = strip s"
  unfolding strip_def by (rule strip_chars_absorb)

lemma float_strip_strip: "strip_chars is_float_space (strip s) = strip s"
  unfolding strip_def
  by (rule strip_chars_absorb) (auto simp: is_float_space_def is_space_def)

lemma to_upper_N: "to_upper c = CHR ''N'' \<longleftrightarrow> c = CHR ''n'' \<or> c = CHR ''N''"
  by (auto simp: to_upper_def lower_letters_def upper_letters_def split: if_splits)

lemma to_upper_A: "to_upper c = CHR ''A'' \<longleftrightarrow> c = CHR ''a'' \<or> c = CHR ''A''"
  by (auto simp: to_upper_def lower_letters_def upper_letters_def split: if_splits)

lemma to_upper_slash: "to_upper c = CHR ''/'' \<longleftrightarrow> c = CHR ''/''"
  by (auto simp: to_upper_def lower_letters_def upper_letters_def split: if_splits)

lemma upper_NA: "upper v = ''N/A'' \<longleftrightarrow> v \<in> {''N/A'', ''n/a'', ''N/a'', ''n/A''}"
  by (auto simp: upper_def map_eq_Cons_conv to_upper_N to_upper_A to_upper_slash)

lemma float_of_string_NA:
  "float_of_string ''N/A'' = None" "float_of_string ''n/a'' = None"
  "float_of_string ''N/a'' = None" "float_of_string ''n/A'' = None"
  by code_simp+

lemma float_of_string_Nil: "float_of_string [] = None"
  by code_simp

lemma parse_num_float: "parse_num val = float_of_string (strip val)"
  using float_of_string_NA
  by (auto simp: parse_num_def Let_def upper_NA float_of_string_Nil)

subsection \<open>Digits\<close>

lemma is_digit_iff: "is_digit c \<longleftrightarrow> c \<in> set ''0123456789''"
  by (auto simp: is_digit_def digit_chars_def split: if_splits)

lemma digit_char_props:
  assumes "0 \<le> d" "d \<le> 9"
  shows "is_digit (digit_char d) \<and> digit_val (digit_char d) = d"
proof -
  from assms have "d = 0 \<or> d = 1 \<or> d = 2 \<or> d = 3 \<or> d = 4 \<or> d = 5 \<or> d = 6 \<or> d = 7 \<or> d = 8 \<or> d = 9"
    by presburger
  then show ?thesis
    by (elim disjE) (simp_all add: digit_char_def is_digit_def digit_val_def digit_chars_def)
qed

lemma digits_val_snoc: "digits_val (ds @ [c]) = 10 * digits_val ds + digit_val c"
  by (simp add: digits_val_def)

lemma digits_of_props:
  "0 \<le> n \<Longrightarrow> digits_of n \<noteq> [] \<and> list_all is_digit (digits_of n) \<and> digits_val (digits_of n) = n"
proof (induction n rule: digits_of.induct)
  case (1 n)
  show ?case
  proof (cases "n < 10")
    case True
    with 1(2) digit_char_props[of n] show ?thesis
      by (simp add: digits_of.simps[of n] digits_val_def)
  next
    case False
    with 1 have ih: "list_all is_digit (digits_of (n div 10))" "digits_val (digits_of (n div 10)) = n div 10"
      by simp_all
    have "0 \<le> n mod 10" "n mod 10 \<le> 9" by simp_all
    from digit_char_props[OF this] ih False show ?thesis
      by (simp add: digits_of.simps[of n] digits_val_snoc)
  qed
qed

lemma digit_not_special:
  "is_digit c \<Longrightarrow> \<not> is_space c \<and> c \<noteq> CHR ''_'' \<and> c \<noteq> CHR ''-'' \<and> c \<noteq> CHR ''+'' \<and>
     c \<noteq> CHR ''.'' \<and> c \<noteq> CHR ''e'' \<and> c \<noteq> CHR ''E'' \<and>
     to_lower c = c \<and> c \<noteq> CHR ''i'' \<and> c \<noteq> CHR ''n''"
proof -
  assume "is_digit c"
  then have "c = CHR ''0'' \<or> c = CHR ''1'' \<or> c = CHR ''2'' \<or> c = CHR ''3'' \<or> c = CHR ''4'' \<or>
             c = CHR ''5'' \<or> c = CHR ''6'' \<or> c = CHR ''7'' \<or> c = CHR ''8'' \<or> c = CHR ''9''"
    by (simp add: is_digit_iff)
  then show ?thesis
    by (elim disjE) (simp_all add: is_space_def to_lower_def upper_letters_def lower_letters_def)
qed

lemma not_digit:
  "\<not> is_digit (CHR ''_'')" "\<not> is_digit (CHR 0x00)" "\<not> is_digit (CHR ''.'')"
  "\<not> is_digit (CHR ''e'')" "\<not> is_digit (CHR ''E'')"
  by (simp_all add: is_digit_def digit_chars_def)

lemma to_lower_other:
  "to_lower (CHR ''-'') = CHR ''-''" "to_lower (CHR ''+'') = CHR ''+''"
  "to_lower (CHR ''.'') = CHR ''.''"
  by (simp_all add: to_lower_def upper_letters_def lower_letters_def)

subsection \<open>Underscores\<close>

lemma underscores_before_not_digit:
  "\<not> is_digit p \<Longrightarrow> underscores_between_digits (Some p) s = underscores_between_digits None s"
  by (cases s) auto

lemma drop_underscores_iff:
  "drop_underscores p s =
     (if (p = CHR ''_'' \<longrightarrow> (\<exists>d ds. s = d # ds \<and> is_digit d)) \<and>
         underscores_between_digits (Some p) s
      then Some (filter (\<lambda>c. c \<noteq> CHR ''_'') s) else None)"
proof (induction s arbitrary: p)
  case Nil
  show ?case by simp
next
  case (Cons c cs)
  show ?case
  proof (cases "c = CHR ''_''")
    case True
    show ?thesis
      using not_digit(1) by (auto simp: True Cons[of "CHR ''_''"])
  next
    case False
    show ?thesis
      by (auto simp: False Cons[of c])
  qed
qed

lemma drop_underscores_start:
  "drop_underscores (CHR 0x00) s =
     (if underscores_between_digits None s then Some (filter (\<lambda>c. c \<noteq> CHR ''_'') s) else None)"
  using underscores_before_not_digit[OF not_digit(2), of s]
  by (simp add: drop_underscores_iff)

subsection \<open>Sign, exponent and decimal number\<close>

lemma parse_sign_text: "parse_sign s = (neg, body) \<Longrightarrow> \<exists>sg. s = sg @ body \<and> sign_text sg neg"
  by (auto simp: parse_sign_def sign_text_def split: list.splits if_splits)

lemma parse_sign_append:
  "sign_text sg neg \<Longrightarrow> body \<noteq> [] \<Longrightarrow> hd body \<noteq> CHR ''-'' \<Longrightarrow> hd body \<noteq> CHR ''+''
   \<Longrightarrow> parse_sign (sg @ body) = (neg, body)"
  by (cases body) (auto simp: parse_sign_def sign_text_def)

lemma parse_exponent_iff: "parse_exponent s = Some e \<longleftrightarrow> exponent_text s e"
proof
  assume p: "parse_exponent s = Some e"
  show "exponent_text s e"
  proof (cases s)
    case Nil
    with p show ?thesis by (simp add: parse_exponent_def exponent_text_def)
  next
    case (Cons c cs)
    obtain neg ds where ps: "parse_sign cs = (neg, ds)" by (cases "parse_sign cs")
    from parse_sign_text[OF ps] obtain sg where sg: "cs = sg @ ds" "sign_text sg neg" by blast
    from p Cons ps have c: "c = CHR ''e'' \<or> c = CHR ''E''" and ds: "ds \<noteq> []" "list_all is_digit ds"
      and e: "e = (if neg then - digits_val ds else digits_val ds)"
      by (auto simp: parse_exponent_def split: if_splits)
    have "s = c # sg @ ds" using Cons sg(1) by simp
    with c sg(2) ds e show ?thesis unfolding exponent_text_def by blast
  qed
next
  assume "exponent_text s e"
  then consider "s = []" "e = 0"
    | c sg neg ds where "s = c # sg @ ds" "c = CHR ''e'' \<or> c = CHR ''E''" "sign_text sg neg"
        "ds \<noteq> []" "list_all is_digit ds" "e = (if neg then - digits_val ds else digits_val ds)"
    unfolding exponent_text_def by blast
  then show "parse_exponent s = Some e"
  proof cases
    case 1
    then show ?thesis by (simp add: parse_exponent_def)
  next
    case 2
    from 2(4,5) have "is_digit (hd ds)" by (cases ds) simp_all
    then have "hd ds \<noteq> CHR ''-''" "hd ds \<noteq> CHR ''+''" using digit_not_special by blast+
    from parse_sign_append[OF 2(3,4) this] have "parse_sign (sg @ ds) = (neg, ds)" .
    with 2 show ?thesis by (auto simp: parse_exponent_def)
  qed
qed

lemma exponent_text_hd:
  "exponent_text ex e \<Longrightarrow> ex = [] \<or> (\<not> is_digit (hd ex) \<and> hd ex \<noteq> CHR ''.'')"
  using not_digit by (auto simp: exponent_text_def)

lemma exponent_text_Nil: "exponent_text [] e \<longleftrightarrow> e = 0"
  by (simp add: exponent_text_def)

lemma take_digits_split:
  "take_digits s = (ds, r) \<Longrightarrow> s = ds @ r \<and> list_all is_digit ds \<and> (r = [] \<or> \<not> is_digit (hd r))"
proof -
  assume "take_digits s = (ds, r)"
  then have ds: "ds = takeWhile is_digit s" and r: "r = dropWhile is_digit s"
    by (simp_all add: take_digits_def)
  have "list_all is_digit ds" unfolding ds by (auto simp: list_all_iff dest: set_takeWhileD)
  moreover have "r = [] \<or> \<not> is_digit (hd r)" unfolding r using hd_dropWhile by blast
  ultimately show ?thesis by (simp add: ds r)
qed

lemma take_digits_append:
  assumes "list_all is_digit ds" "r = [] \<or> \<not> is_digit (hd r)"
  shows "take_digits (ds @ r) = (ds, r)"
proof -
  from assms(2) have 1: "takeWhile is_digit r = []" "dropWhile is_digit r = r"
    by (cases r; simp)+
  from assms(1) have "takeWhile is_digit (ds @ r) = ds @ takeWhile is_digit r"
    "dropWhile is_digit (ds @ r) = dropWhile is_digit r"
    by (simp_all add: list_all_iff)
  with 1 show ?thesis by (simp add: take_digits_def)
qed

lemma parse_decimal_iff: "parse_decimal s = Some q \<longleftrightarrow> decimal_text s q"
proof
  assume p: "parse_decimal s = Some q"
  obtain ip r1 where t1: "take_digits s = (ip, r1)" by (cases "take_digits s")
  from take_digits_split[OF t1] have s: "s = ip @ r1" and ip: "list_all is_digit ip" by simp_all
  show "decimal_text s q"
  proof (cases r1)
    case Nil
    with p t1 have "ip \<noteq> []" and q: "q = of_int (digits_val (ip @ [])) * pow_int 10 (0 - int (length ([]::string)))"
      by (auto simp: parse_decimal_def parse_exponent_def split: if_splits)
    have "s = ip @ [] @ [] @ []" using s Nil by simp
    moreover have "exponent_text [] 0" by (simp add: exponent_text_Nil)
    ultimately show ?thesis
      unfolding decimal_text_def using ip \<open>ip \<noteq> []\<close> q
      by (intro exI[of _ ip] exI[of _ "[]"] exI[of _ 0]) simp
  next
    case (Cons c cs)
    show ?thesis
    proof (cases "c = CHR ''.''")
      case True
      obtain fp r2 where t2: "take_digits cs = (fp, r2)" by (cases "take_digits cs")
      from take_digits_split[OF t2] have cs: "cs = fp @ r2" and fp: "list_all is_digit fp" by simp_all
      from p t1 t2 Cons True obtain x where ne: "ip \<noteq> [] \<or> fp \<noteq> []"
        and x: "parse_exponent r2 = Some x"
        and q: "q = of_int (digits_val (ip @ fp)) * pow_int 10 (x - int (length fp))"
        by (auto simp: parse_decimal_def split: if_splits option.splits)
      from x have ex: "exponent_text r2 x" by (simp add: parse_exponent_iff)
      have "s = ip @ ''.'' @ fp @ r2" using s Cons True cs by simp
      with ip fp ne ex q show ?thesis unfolding decimal_text_def by blast
    next
      case False
      from p t1 Cons False obtain x where ne: "ip \<noteq> []"
        and x: "parse_exponent r1 = Some x"
        and q: "q = of_int (digits_val (ip @ [])) * pow_int 10 (x - int (length ([]::string)))"
        by (auto simp: parse_decimal_def split: if_splits option.splits)
      from x have ex: "exponent_text r1 x" by (simp add: parse_exponent_iff)
      have "s = ip @ [] @ [] @ r1" using s by simp
      then show ?thesis
        unfolding decimal_text_def using ip ne ex q
        by (intro exI[of _ ip] exI[of _ "[]"] exI[of _ r1] exI[of _ x]) simp
    qed
  qed
next
  assume "decimal_text s q"
  then obtain ip dot fp ex e where s: "s = ip @ dot @ fp @ ex"
    and ip: "list_all is_digit ip" and fp: "list_all is_digit fp" and ne: "ip \<noteq> [] \<or> fp \<noteq> []"
    and dot: "dot = ''.'' \<or> (dot = [] \<and> fp = [])" and ex: "exponent_text ex e"
    and q: "q = of_int (digits_val (ip @ fp)) * pow_int 10 (e - int (length fp))"
    unfolding decimal_text_def by blast
  from ex have pe: "parse_exponent ex = Some e" by (simp add: parse_exponent_iff)
  from exponent_text_hd[OF ex] have exh: "ex = [] \<or> (\<not> is_digit (hd ex) \<and> hd ex \<noteq> CHR ''.'')" .
  show "parse_decimal s = Some q"
  proof (cases "dot = ''.''")
    case True
    have "take_digits (ip @ CHR ''.'' # fp @ ex) = (ip, CHR ''.'' # fp @ ex)"
      using ip not_digit(3) by (intro take_digits_append) simp_all
    moreover have "take_digits (fp @ ex) = (fp, ex)"
      using fp exh by (intro take_digits_append) auto
    ultimately show ?thesis
      using ne pe q by (auto simp: parse_decimal_def s True)
  next
    case False
    with dot have d: "dot = []" "fp = []" by simp_all
    with ne have ipn: "ip \<noteq> []" by simp
    have t: "take_digits (ip @ ex) = (ip, ex)"
      using ip exh by (intro take_digits_append) auto
    show ?thesis
    proof (cases ex)
      case Nil
      with ex have "e = 0" by (simp add: exponent_text_Nil)
      with t ipn q Nil show ?thesis
        by (simp add: parse_decimal_def s d parse_exponent_def)
    next
      case (Cons c cs)
      with exh have "c \<noteq> CHR ''.''" by simp
      with t ipn q pe Cons show ?thesis
        by (simp add: parse_decimal_def s d)
    qed
  qed
qed

lemma decimal_text_hd: "decimal_text b q \<Longrightarrow> b \<noteq> [] \<and> (is_digit (hd b) \<or> hd b = CHR ''.'')"
proof -
  assume "decimal_text b q"
  then obtain ip dot fp ex where b: "b = ip @ dot @ fp @ ex"
    and ip: "list_all is_digit ip" and ne: "ip \<noteq> [] \<or> fp \<noteq> []"
    and dot: "dot = ''.'' \<or> (dot = [] \<and> fp = [])"
    unfolding decimal_text_def by blast
  show ?thesis
  proof (cases ip)
    case Nil
    with ne dot have "dot = ''.''" by auto
    with Nil b show ?thesis by simp
  next
    case (Cons d ds)
    with ip b show ?thesis by simp
  qed
qed

lemma special_text_hd:
  assumes "map to_lower b = ''inf'' \<or> map to_lower b = ''infinity'' \<or> map to_lower b = ''nan''"
  shows "b \<noteq> [] \<and> (to_lower (hd b) = CHR ''i'' \<or> to_lower (hd b) = CHR ''n'')"
  using assms by (cases b) auto

lemma decimal_text_not_special:
  assumes "decimal_text b q"
  shows "map to_lower b \<noteq> ''inf''" "map to_lower b \<noteq> ''infinity''" "map to_lower b \<noteq> ''nan''"
proof -
  from decimal_text_hd[OF assms] have "b \<noteq> []" "to_lower (hd b) = hd b"
    "hd b \<noteq> CHR ''i''" "hd b \<noteq> CHR ''n''"
    using digit_not_special[of "hd b"] to_lower_other by auto
  then have "\<not> (to_lower (hd b) = CHR ''i'' \<or> to_lower (hd b) = CHR ''n'')" by simp
  then have n: "\<not> (to_lower (hd b) = CHR ''i'' \<or> to_lower (hd b) = CHR ''n'')" .
  have "\<not> (map to_lower b = ''inf'' \<or> map to_lower b = ''infinity'' \<or> map to_lower b = ''nan'')"
  proof
    assume "map to_lower b = ''inf'' \<or> map to_lower b = ''infinity'' \<or> map to_lower b = ''nan''"
    from special_text_hd[OF this] n show False by simp
  qed
  then show "map to_lower b \<noteq> ''inf''" "map to_lower b \<noteq> ''infinity''"
    "map to_lower b \<noteq> ''nan''" by simp_all
qed

lemma body_hd_not_sign:
  assumes "map to_lower b = ''inf'' \<or> map to_lower b = ''infinity'' \<or> map to_lower b = ''nan'' \<or>
           (\<exists>q. decimal_text b q)"
  shows "b \<noteq> [] \<and> hd b \<noteq> CHR ''-'' \<and> hd b \<noteq> CHR ''+''"
proof (cases "\<exists>q. decimal_text b q")
  case True
  then obtain q where "decimal_text b q" by blast
  from decimal_text_hd[OF this] show ?thesis using digit_not_special[of "hd b"] by auto
next
  case False
  with assms special_text_hd[of b] show ?thesis using to_lower_other by auto
qed


subsection \<open>\<open>float\<close> accepts the numeric texts\<close>

lemma float_of_plain_iff:
  "(let (neg, body) = parse_sign t; low = map to_lower body
    in if low = ''inf'' \<or> low = ''infinity'' then Some (signed_inf neg)
       else if low = ''nan'' then Some NaN
       else map_option (round_binary64 neg) (parse_decimal body)) = Some x
   \<longleftrightarrow> plain_float_text t x"
  (is "?lhs = Some x \<longleftrightarrow> _")
proof
  assume l: "?lhs = Some x"
  obtain neg body where ps: "parse_sign t = (neg, body)" by (cases "parse_sign t")
  from parse_sign_text[OF ps] obtain sg where sg: "t = sg @ body" "sign_text sg neg" by blast
  from l ps have
    "((map to_lower body = ''inf'' \<or> map to_lower body = ''infinity'') \<and> x = signed_inf neg) \<or>
     (map to_lower body = ''nan'' \<and> x = NaN) \<or>
     (\<exists>q. parse_decimal body = Some q \<and> x = round_binary64 neg q)"
    by (auto simp: Let_def split: if_splits)
  then have
    "((map to_lower body = ''inf'' \<or> map to_lower body = ''infinity'') \<and> x = signed_inf neg) \<or>
     (map to_lower body = ''nan'' \<and> x = NaN) \<or>
     (\<exists>q. decimal_text body q \<and> x = round_binary64 neg q)"
    by (simp add: parse_decimal_iff)
  with sg show "plain_float_text t x"
    unfolding plain_float_text_def by (intro exI[of _ sg] exI[of _ neg] exI[of _ body]) simp
next
  assume "plain_float_text t x"
  then obtain sg neg body where t: "t = sg @ body" and sg: "sign_text sg neg"
    and b: "((map to_lower body = ''inf'' \<or> map to_lower body = ''infinity'') \<and> x = signed_inf neg) \<or>
            (map to_lower body = ''nan'' \<and> x = NaN) \<or>
            (\<exists>q. decimal_text body q \<and> x = round_binary64 neg q)"
    unfolding plain_float_text_def by (elim exE conjE) (rule that)
  from b have "map to_lower body = ''inf'' \<or> map to_lower body = ''infinity'' \<or>
      map to_lower body = ''nan'' \<or> (\<exists>q. decimal_text body q)"
    by (elim disjE conjE exE) auto
  from body_hd_not_sign[OF this] have "body \<noteq> []" "hd body \<noteq> CHR ''-''" "hd body \<noteq> CHR ''+''"
    by simp_all
  from parse_sign_append[OF sg this] have ps: "parse_sign t = (neg, body)" by (simp add: t)
  from b consider "map to_lower body = ''inf'' \<or> map to_lower body = ''infinity''" "x = signed_inf neg"
    | "map to_lower body = ''nan''" "x = NaN"
    | q where "decimal_text body q" "x = round_binary64 neg q"
    by (elim disjE conjE exE) simp_all
  then show "?lhs = Some x"
  proof cases
    case 1
    then show ?thesis by (simp add: ps)
  next
    case 2
    then show ?thesis by (simp add: ps)
  next
    case 3
    from 3(1) have "parse_decimal body = Some q" by (simp add: parse_decimal_iff)
    with decimal_text_not_special[OF 3(1)] 3(2) show ?thesis by (simp add: ps)
  qed
qed

lemma float_of_string_iff:
  "float_of_string s = Some x \<longleftrightarrow> numeric_text (strip_chars is_float_space s) x"
proof (cases "underscores_between_digits None (strip_chars is_float_space s)")
  case True
  then have "float_of_string s =
      (let (neg, body) = parse_sign (filter (\<lambda>c. c \<noteq> CHR ''_'') (strip_chars is_float_space s));
           low = map to_lower body
       in if low = ''inf'' \<or> low = ''infinity'' then Some (signed_inf neg)
          else if low = ''nan'' then Some NaN
          else map_option (round_binary64 neg) (parse_decimal body))"
    by (simp add: float_of_string_def drop_underscores_start)
  with True show ?thesis by (simp only: float_of_plain_iff numeric_text_def simp_thms)
next
  case False
  then show ?thesis by (simp add: float_of_string_def drop_underscores_start numeric_text_def)
qed

lemma parse_num_iff: "parse_num val = Some x \<longleftrightarrow> numeric_text (strip val) x"
  by (simp add: parse_num_float float_of_string_iff float_strip_strip)

lemma numeric_text_digits:
  assumes "ds \<noteq> []" "list_all is_digit ds"
  shows "numeric_text ds (round_binary64 False (of_int (digits_val ds)))"
    and "numeric_text (CHR ''-'' # ds) (round_binary64 True (of_int (digits_val ds)))"
proof -
  have nu: "filter (\<lambda>c. c \<noteq> CHR ''_'') ds = ds"
    using assms(2) digit_not_special by (auto simp: list_all_iff filter_id_conv)
  have ub: "underscores_between_digits b ds" for b
    using assms(2) digit_not_special by (induction ds arbitrary: b) auto
  have "exponent_text [] 0" by (simp add: exponent_text_Nil)
  then have d: "decimal_text ds (of_int (digits_val ds))"
    unfolding decimal_text_def using assms
    by (intro exI[of _ ds] exI[of _ "[]"] exI[of _ 0]) (simp add: pow_int_def)
  have "sign_text [] False" "sign_text ''-'' True" by (simp_all add: sign_text_def)
  with d have "plain_float_text ([] @ ds) (round_binary64 False (of_int (digits_val ds)))"
    unfolding plain_float_text_def
    by (intro exI[of _ "[]"] exI[of _ False] exI[of _ ds]) auto
  moreover from d \<open>sign_text ''-'' True\<close>
  have "plain_float_text (''-'' @ ds) (round_binary64 True (of_int (digits_val ds)))"
    unfolding plain_float_text_def
    by (intro exI[of _ "''-''"] exI[of _ True] exI[of _ ds]) auto
  ultimately show "numeric_text ds (round_binary64 False (of_int (digits_val ds)))"
    "numeric_text (CHR ''-'' # ds) (round_binary64 True (of_int (digits_val ds)))"
    using ub by (simp_all add: numeric_text_def nu)
qed

lemma strip_digits:
  assumes "ds \<noteq> []" "list_all is_digit ds"
  shows "strip ds = ds" "strip (CHR ''-'' # ds) = CHR ''-'' # ds"
proof -
  from assms have e: "is_digit (hd ds)" "is_digit (last ds)"
    by (simp_all add: list_all_iff)
  then show "strip ds = ds"
    unfolding strip_def using digit_not_special by (intro strip_chars_id) auto
  have "\<not> is_space (CHR ''-'')" by (simp add: is_space_def)
  then show "strip (CHR ''-'' # ds) = CHR ''-'' # ds"
    unfolding strip_def using assms(1) e digit_not_special by (intro strip_chars_id) auto
qed

text \<open>
  Claim C4.  \<open>parse_num\<close> first trims the surrounding whitespace: it works on the text
  between a longest prefix and a longest suffix of whitespace characters.  It returns
  \<open>None\<close> for an empty string and for \<open>N/A\<close> in any letter case.  For every other text
  it returns the float \<open>x\<close> exactly when the trimmed text is numeric text with the value
  \<open>x\<close>, and \<open>None\<close>, without raising, exactly when the trimmed text is not numeric text.
  There is no range restriction: the decimal digits of every integer \<open>n \<ge> 0\<close>, with or
  without a minus sign, are numeric text and are parsed to the binary64 value of \<open>n\<close> or
  \<open>-n\<close>.
\<close>

theorem parse_num_coercion:
  "parse_num val = parse_num (strip val) \<and>
   (\<exists>a b. val = a @ strip val @ b \<and> list_all is_space a \<and> list_all is_space b) \<and>
   (strip val = [] \<or> (\<not> is_space (hd (strip val)) \<and> \<not> is_space (last (strip val)))) \<and>
   (strip val = [] \<longrightarrow> parse_num val = None) \<and>
   (upper (strip val) = ''N/A'' \<longleftrightarrow> strip val \<in> {''N/A'', ''n/a'', ''N/a'', ''n/A''}) \<and>
   (upper (strip val) = ''N/A'' \<longrightarrow> parse_num val = None) \<and>
   (\<forall>x. parse_num val = Some x \<longleftrightarrow> numeric_text (strip val) x) \<and>
   (parse_num val = None \<longleftrightarrow> (\<forall>x. \<not> numeric_text (strip val) x)) \<and>
   (0 \<le> n \<longrightarrow> numeric_text (digits_of n) (round_binary64 False (of_int n)) \<and>
             numeric_text (CHR ''-'' # digits_of n) (round_binary64 True (of_int n)) \<and>
             parse_num (digits_of n) = Some (round_binary64 False (of_int n)) \<and>
             parse_num (CHR ''-'' # digits_of n) = Some (round_binary64 True (of_int n)))"
proof -
  have 1: "parse_num val = parse_num (strip val)"
    by (simp add: parse_num_float strip_strip)
  have 2: "\<exists>a b. val = a @ strip val @ b \<and> list_all is_space a \<and> list_all is_space b"
    unfolding strip_def by (rule strip_chars_decomp)
  have 3: "strip val = [] \<or> (\<not> is_space (hd (strip val)) \<and> \<not> is_space (last (strip val)))"
    unfolding strip_def by (rule strip_chars_ends)
  have 4: "strip val = [] \<longrightarrow> parse_num val = None"
    by (simp add: parse_num_def)
  have 5: "upper (strip val) = ''N/A'' \<longleftrightarrow> strip val \<in> {''N/A'', ''n/a'', ''N/a'', ''n/A''}"
    by (rule upper_NA)
  have 6: "upper (strip val) = ''N/A'' \<longrightarrow> parse_num val = None"
    by (simp add: parse_num_def)
  have 7: "\<forall>x. parse_num val = Some x \<longleftrightarrow> numeric_text (strip val) x"
    by (simp add: parse_num_iff)
  have 8: "parse_num val = None \<longleftrightarrow> (\<forall>x. \<not> numeric_text (strip val) x)"
  proof (cases "parse_num val")
    case None
    then have "\<forall>x. \<not> numeric_text (strip val) x"
      using parse_num_iff[of val] by simp
    with None show ?thesis by simp
  next
    case (Some y)
    then have "numeric_text (strip val) y" by (simp add: parse_num_iff)
    with Some show ?thesis by auto
  qed
  have 9: "numeric_text (digits_of n) (round_binary64 False (of_int n)) \<and>
           numeric_text (CHR ''-'' # digits_of n) (round_binary64 True (of_int n)) \<and>
           parse_num (digits_of n) = Some (round_binary64 False (of_int n)) \<and>
           parse_num (CHR ''-'' # digits_of n) = Some (round_binary64 True (of_int n))" if "0 \<le> n"
  proof -
    from digits_of_props[OF that] have d: "digits_of n \<noteq> []" "list_all is_digit (digits_of n)"
      and v: "digits_val (digits_of n) = n" by simp_all
    from numeric_text_digits[OF d] strip_digits[OF d] show ?thesis
      by (simp add: parse_num_iff v)
  qed
  from 1 2 3 4 5 6 7 8 9 show ?thesis by blast
qed

lemma parse_num_examples:
  "parse_num ''  12.5 '' = Some (Fin (25 / 2))" "parse_num '' n/A'' = None"
  "parse_num ''abc'' = None" "parse_num ''-5'' = Some (Fin (- 5))"
  "parse_num ''0'' = Some (Fin 0)" "parse_num ''1e3'' = Some (Fin 1000)"
  "parse_num ''   '' = None" "parse_num ''5x'' = None" "parse_num ''1_000'' = Some (Fin 1000)"
  "parse_num ''1__0'' = None" "parse_num ''_1'' = None" "parse_num ''1_'' = None"
  "parse_num [CHR 0xA0, CHR ''5''] = Some (Fin 5)" "parse_num [CHR ''5'', CHR 0x85] = Some (Fin 5)"
  "parse_num [CHR 0x1C, CHR ''5''] = Some (Fin 5)" "parse_num ''-inf'' = Some NegInf"
  by code_simp+

lemma strip_examples:
  "strip ''   '' = []" "upper (strip '' n/A'') = ''N/A''" "strip ''  12.5 '' = ''12.5''"
  "strip ''5x'' = ''5x''" "strip ''1_000'' = ''1_000''" "strip ''1__0'' = ''1__0''"
  "strip [CHR 0xA0, CHR ''5''] = ''5''" "digits_of 5 = ''5''" "digits_of 0 = ''0''"
  by code_simp+

lemma numeric_text_example: "numeric_text ''12.5'' (Fin (25 / 2))"
proof -
  have v: "round_binary64 False (of_int (digits_val (''12'' @ ''5'')) * pow_int 10 (0 - int (length ''5'')))
             = Fin (25 / 2)"
    by code_simp
  have "decimal_text ''12.5'' (of_int (digits_val (''12'' @ ''5'')) * pow_int 10 (0 - int (length ''5'')))"
    unfolding decimal_text_def
    by (intro exI[of _ "''12''"] exI[of _ "''.''"] exI[of _ "''5''"] exI[of _ "[]"] exI[of _ 0])
       (simp add: exponent_text_Nil is_digit_def digit_chars_def)
  then have "\<exists>q. decimal_text ''12.5'' q \<and> Fin (25 / 2) = round_binary64 False q"
    using v by (intro exI[of _ "of_int (digits_val (''12'' @ ''5'')) * pow_int 10 (0 - int (length ''5''))"]) simp
  then have "plain_float_text ''12.5'' (Fin (25 / 2))"
    unfolding plain_float_text_def
    by (intro exI[of _ "[]"] exI[of _ False] exI[of _ "''12.5''"]) (simp add: sign_text_def)
  then show ?thesis by (simp add: numeric_text_def)
qed

text \<open>
  Blank text, \<open>n/A\<close> with a leading space and \<open>abc\<close> give \<open>None\<close>; \<open>12.5\<close> is numeric
  text with the value \<open>12.5\<close>, and between spaces it is parsed to that value; \<open>5x\<close> and
  \<open>1__0\<close> are not numeric text and give \<open>None\<close>, \<open>1_000\<close> is numeric text with the value
  \<open>1000\<close>; a no-break space before \<open>5\<close> is trimmed; \<open>-5\<close> and \<open>0\<close> give their values.
\<close>

theorem parse_num_coercion_witness:
  "strip ''   '' = [] \<and> parse_num ''   '' = None \<and>
   upper (strip '' n/A'') = ''N/A'' \<and> parse_num '' n/A'' = None \<and>
   parse_num ''abc'' = None \<and>
   strip ''  12.5 '' = ''12.5'' \<and> numeric_text ''12.5'' (Fin (25 / 2)) \<and>
   parse_num ''  12.5 '' = Some (Fin (25 / 2)) \<and>
   parse_num ''5x'' = None \<and> (\<forall>x. \<not> numeric_text ''5x'' x) \<and>
   parse_num ''1__0'' = None \<and> (\<forall>x. \<not> numeric_text ''1__0'' x) \<and>
   parse_num ''1_000'' = Some (Fin 1000) \<and> numeric_text ''1_000'' (Fin 1000) \<and>
   strip [CHR 0xA0, CHR ''5''] = ''5'' \<and> parse_num [CHR 0xA0, CHR ''5''] = Some (Fin 5) \<and>
   (0::int) \<le> 5 \<and> digits_of 5 = ''5'' \<and> parse_num ''-5'' = Some (Fin (- 5)) \<and>
   numeric_text ''-5'' (Fin (- 5)) \<and> parse_num ''0'' = Some (Fin 0)"
proof -
  have r: "round_binary64 True 5 = Fin (- 5)" "round_binary64 False 0 = Fin 0"
    by code_simp+
  note blank = parse_num_coercion[of "''   ''" 5, THEN conjunct2, THEN conjunct2, THEN conjunct2,
      THEN conjunct1]
  note na = parse_num_coercion[of "'' n/A''" 5, THEN conjunct2, THEN conjunct2, THEN conjunct2,
      THEN conjunct2, THEN conjunct2, THEN conjunct1]
  note some = parse_num_coercion[THEN conjunct2, THEN conjunct2, THEN conjunct2,
      THEN conjunct2, THEN conjunct2, THEN conjunct2, THEN conjunct1]
  note none = parse_num_coercion[THEN conjunct2, THEN conjunct2, THEN conjunct2,
      THEN conjunct2, THEN conjunct2, THEN conjunct2, THEN conjunct2, THEN conjunct1]
  note digits = parse_num_coercion[THEN conjunct2, THEN conjunct2, THEN conjunct2,
      THEN conjunct2, THEN conjunct2, THEN conjunct2, THEN conjunct2, THEN conjunct2]
  from blank strip_examples(1)
  have 1: "parse_num ''   '' = None" by simp
  from na strip_examples(2)
  have 2: "parse_num '' n/A'' = None" by simp
  from some[of "''  12.5 ''", THEN spec, of "Fin (25 / 2)"] numeric_text_example
  have 3: "parse_num ''  12.5 '' = Some (Fin (25 / 2))" by (simp add: strip_examples)
  from none[of "''5x''"] parse_num_examples(8)
  have 4: "\<forall>x. \<not> numeric_text ''5x'' x" by (simp add: strip_examples)
  from none[of "''1__0''"] parse_num_examples(10)
  have 5: "\<forall>x. \<not> numeric_text ''1__0'' x" by (simp add: strip_examples)
  from some[of "''1_000''", THEN spec, of "Fin 1000"] parse_num_examples(9)
  have 6: "numeric_text ''1_000'' (Fin 1000)" by (simp add: strip_examples)
  from digits[of 5]
  have 7: "parse_num ''-5'' = Some (Fin (- 5))" "numeric_text ''-5'' (Fin (- 5))"
    by (simp_all add: strip_examples r)
  from digits[of 0]
  have 8: "parse_num ''0'' = Some (Fin 0)"
    by (simp add: strip_examples r)
  from 1 2 3 4 5 6 7 8 numeric_text_example show ?thesis
    by (simp add: strip_examples parse_num_examples)
qed

end
